theory Spec2Isabelle
  imports Main "HOL-Library.Word"
begin

unbundle bit_operations_syntax

section \<open>Serial shutter control (ssc.c): data model\<close>

text \<open>
  The program is one C file working on process-wide variables. The variables that are
  fixed once the command line has been read form the record \<open>config\<close>; the variables
  that change during the run, the device and the environment form the record \<open>state\<close>.
  \<open>unsigned int\<close> and \<open>int\<close> are 32-bit words; an \<open>int\<close> handed to a parameter of
  type \<open>unsigned int\<close> keeps its bits, so \<open>mlu_delay\<close> and \<open>shut_min_pulse\<close> are
  stored as the words that \<open>sleep_quiet\<close> receives.
\<close>

type_synonym u32 = "32 word"
type_synonym u8 = "8 word"

record config =
  exp_count :: u32
  exp_time :: u32
  exp_pause :: u32
  phd_dither_size :: u32
  log_target :: "string option"
  mlu_method :: u32
  mlu_delay :: u32
  shut_min_pulse :: u32
  quiet :: bool

text \<open>
  What the process does to the outside world, in order. Every entry of the trace carries
  the clock (in nanoseconds) at which it happened. \<open>Call_expose\<close> and \<open>Return_expose\<close>
  are markers written by the sequencer around each call of \<open>expose\<close>; they carry the
  modem-control bits of that moment and stand for no system call.
\<close>

datatype action =
    Tiocmset u32
  | Print_progress "u32 \<times> u32" u32 char
  | Print_done "u32 \<times> u32"
  | Print_dithering
  | Print_unknown_mlu u32
  | Guider_write u8
  | Guider_read
  | Log_line string nat nat
  | Close_serial
  | Close_guider
  | Call_expose u32
  | Return_expose u32

text \<open>
  \<open>Exited n\<close>: the process has called \<open>exit(n)\<close>. \<open>Undefined\<close>: the process has
  read outside an array, after which C promises nothing.
\<close>

datatype status = Running | Exited nat | Undefined

text \<open>
  The environment is part of the state:
  \<^item> \<open>sigint = Some (k, d)\<close>: SIGINT arrives after \<open>k\<close> more atomic steps of the
    program; if the step it meets is a \<open>nanosleep\<close>, it arrives \<open>d\<close> nanoseconds into it;
  \<^item> \<open>eintr\<close>: the delays (in nanoseconds of sleep) after which \<open>nanosleep\<close> is woken
    by a signal whose handler returns, so that it fails with \<open>EINTR\<close>;
  \<^item> \<open>wr_ret\<close>, \<open>rd_ret\<close>: the values the coming calls of \<open>write\<close> and \<open>read\<close> on
    the guider socket return, \<open>read\<close> with the byte it delivers (once the list is
    used up they return 1);
  \<^item> \<open>sock_ret\<close>, \<open>resolve_ok\<close>, \<open>connect_ok\<close>: what \<open>socket\<close> returns and whether
    \<open>gethostbyname\<close> and \<open>connect\<close> succeed.
  Time passes in \<open>nanosleep\<close> only. A \<open>struct timeval\<close> is kept as its value in
  microseconds.
\<close>

record state =
  mctrl :: u32
  exposing :: bool
  exp_start :: nat
  exp_end :: nat
  animation_step :: nat
  verbose :: "u32 \<times> u32"
  phd_fd :: int
  clock :: nat
  trace :: "(nat \<times> action) list"
  status :: status
  sigint :: "(nat \<times> nat) option"
  eintr :: "nat list"
  wr_ret :: "int list"
  rd_ret :: "(int \<times> u8) list"
  sock_ret :: int
  resolve_ok :: bool
  connect_ok :: bool

definition emit :: "action \<Rightarrow> state \<Rightarrow> state" where
  "emit a s = s\<lparr>trace := trace s @ [(clock s, a)]\<rparr>"

section \<open>The control line\<close>

text \<open>The modem-control bits of Linux (\<open>asm-generic/termios.h\<close>).\<close>

definition TIOCM_DTR :: u32 where
  "TIOCM_DTR = 0x002"

definition TIOCM_RTS :: u32 where
  "TIOCM_RTS = 0x004"

text \<open>What \<open>set_rts\<close> computes between its two \<open>ioctl\<close> calls.\<close>

definition rts_bits :: "bool \<Rightarrow> u32 \<Rightarrow> u32" where
  "rts_bits on cbits = (if on then cbits OR TIOCM_RTS else cbits AND NOT TIOCM_RTS)"

definition tiocmset :: "u32 \<Rightarrow> state \<Rightarrow> state" where
  "tiocmset cbits s = emit (Tiocmset cbits) (s\<lparr>mctrl := cbits\<rparr>)"

definition released :: "state \<Rightarrow> bool" where
  "released s \<longleftrightarrow> mctrl s AND TIOCM_RTS = 0"

definition gettimeofday :: "state \<Rightarrow> nat" where
  "gettimeofday s = clock s div 1000"

text \<open>
  \<open>log_exposure\<close>: nothing without a label; otherwise one line with the label and the
  two time stamps (the file is taken to open).
\<close>

definition log_exposure :: "config \<Rightarrow> state \<Rightarrow> state" where
  "log_exposure c s =
     (case log_target c of
        None \<Rightarrow> s
      | Some l \<Rightarrow> emit (Log_line l (exp_start s) (exp_end s)) s)"

text \<open>
  The SIGINT handler. It runs \<open>shutter_release\<close>, closes an exposure that is under way,
  closes the serial device and leaves with status 0. No second signal is modelled while
  it runs, so its steps are taken directly.
\<close>

definition exit_cleanup :: "config \<Rightarrow> state \<Rightarrow> state" where
  "exit_cleanup c s =
     (let s1 = tiocmset (rts_bits False (mctrl s)) s;
          s2 = (if exposing s1
                then log_exposure c (s1\<lparr>exposing := False, exp_end := gettimeofday s1\<rparr>)
                else s1)
      in (emit Close_serial s2)\<lparr>status := Exited 0\<rparr>)"

text \<open>
  One atomic step of the program: nothing once the process has left; the handler in its
  place when the signal is due; the step otherwise.
\<close>

definition tick :: "(nat \<times> nat) option \<Rightarrow> (nat \<times> nat) option" where
  "tick p = (case p of None \<Rightarrow> None | Some (k, d) \<Rightarrow> Some (k - 1, d))"

definition due :: "state \<Rightarrow> bool" where
  "due s \<longleftrightarrow> (case sigint s of Some (k, d) \<Rightarrow> k = 0 | None \<Rightarrow> False)"

definition atom :: "config \<Rightarrow> (state \<Rightarrow> state) \<Rightarrow> state \<Rightarrow> state" where
  "atom c f s =
     (if status s \<noteq> Running then s
      else if due s then exit_cleanup c (s\<lparr>sigint := None\<rparr>)
      else f (s\<lparr>sigint := tick (sigint s)\<rparr>))"

definition set_rts :: "config \<Rightarrow> bool \<Rightarrow> state \<Rightarrow> state" where
  "set_rts c on s =
     (let s1 = atom c (\<lambda>s. s) s;
          cbits = rts_bits on (mctrl s1)
      in atom c (tiocmset cbits) s1)"

definition shutter_fire :: "config \<Rightarrow> state \<Rightarrow> state" where
  "shutter_fire c s = set_rts c True s"

definition shutter_release :: "config \<Rightarrow> state \<Rightarrow> state" where
  "shutter_release c s = set_rts c False s"


section \<open>Waiting\<close>

record timespec =
  tv_sec :: nat
  tv_nsec :: nat

definition ns_of :: "timespec \<Rightarrow> nat" where
  "ns_of t = tv_sec t * 1000000000 + tv_nsec t"

text \<open>
  \<open>nanosleep\<close> for \<open>t\<close> nanoseconds: it sleeps the whole time and returns 0 (\<open>None\<close>),
  or a signal wakes it after \<open>e < t\<close> and it returns -1 with \<open>EINTR\<close> and the time
  that remains.
\<close>

definition nanosleep :: "nat \<Rightarrow> state \<Rightarrow> state \<times> nat option" where
  "nanosleep t s =
     (case eintr s of
        [] \<Rightarrow> (s\<lparr>clock := clock s + t\<rparr>, None)
      | e # es \<Rightarrow>
          if e < t then (s\<lparr>clock := clock s + e, eintr := es\<rparr>, Some (t - e))
          else (s\<lparr>clock := clock s + t, eintr := (e - t) # es\<rparr>, None))"

definition arrival :: "state \<Rightarrow> nat" where
  "arrival s = (case sigint s of Some (k, d) \<Rightarrow> d | None \<Rightarrow> 0)"

text \<open>
  The loop \<open>again: r = nanosleep(&t, &rem); if (r == -1 && errno == EINTR) { t = rem;
  goto again; }\<close> of \<open>sleep_quiet\<close>. SIGINT during the sleep runs the handler at the
  moment it arrives.
\<close>

function sleep_again :: "config \<Rightarrow> nat \<Rightarrow> state \<Rightarrow> state" where
  "sleep_again c t s =
     (if status s \<noteq> Running then s
      else if due s
      then exit_cleanup c (s\<lparr>clock := clock s + min (arrival s) t, sigint := None\<rparr>)
      else (case nanosleep t (s\<lparr>sigint := tick (sigint s)\<rparr>) of
              (s1, None) \<Rightarrow> s1
            | (s1, Some rem) \<Rightarrow> sleep_again c rem s1))"
  by pat_completeness auto
termination
  by (relation "measure (\<lambda>(c, t, s). length (eintr s))")
     (auto simp: nanosleep_def split: list.splits if_splits)

declare sleep_again.simps [simp del]

definition sleep_quiet :: "config \<Rightarrow> u32 \<Rightarrow> state \<Rightarrow> state" where
  "sleep_quiet c msec s =
     (let t = \<lparr>tv_sec = unat (msec div 1000),
                tv_nsec = unat ((msec - msec div 1000 * 1000) * 1000000)\<rparr>
      in sleep_again c (ns_of t) s)"

definition ANIMATION_STEP :: u32 where
  "ANIMATION_STEP = 500"

definition ANIMATION_LEN :: nat where
  "ANIMATION_LEN = 8"

definition animation :: "char list" where
  "animation = [CHR ''|'', CHR ''/'', CHR ''-'', CHR 0x5C, CHR ''|'', CHR ''/'', CHR ''-'', CHR 0x5C]"

text \<open>
  The \<open>while\<close> loop of \<open>sleep_verbose\<close>; it returns \<open>sofar\<close> with the state. The sum
  \<open>sofar + ANIMATION_STEP\<close> is an \<open>unsigned int\<close> and wraps. A process that has left
  runs no further iteration.
\<close>

partial_function (option) verbose_loop ::
  "config \<Rightarrow> u32 \<Rightarrow> u32 \<Rightarrow> state \<Rightarrow> (u32 \<times> state) option" where
  "verbose_loop c msec sofar s =
     (if status s \<noteq> Running then Some (sofar, s)
      else if sofar + ANIMATION_STEP \<le> msec then
        (let s1 = atom c (\<lambda>s. emit (Print_progress (verbose s) (100 * sofar div msec)
                                      (animation ! animation_step s))
                                (s\<lparr>animation_step := animation_step s + 1\<rparr>)) s;
             s2 = atom c (\<lambda>s. s\<lparr>animation_step := animation_step s mod ANIMATION_LEN\<rparr>) s1;
             s3 = sleep_quiet c ANIMATION_STEP s2
         in verbose_loop c msec (sofar + ANIMATION_STEP) s3)
      else Some (sofar, s))"

definition sleep_verbose :: "config \<Rightarrow> u32 \<Rightarrow> state \<Rightarrow> state option" where
  "sleep_verbose c msec s =
     (if quiet c then Some (sleep_quiet c msec s)
      else (case verbose_loop c msec 0 s of
              None \<Rightarrow> None
            | Some (sofar, s1) \<Rightarrow>
                (let s2 = sleep_quiet c (msec - sofar) s1
                 in Some (atom c (\<lambda>s. emit (Print_done (verbose s)) s) s2))))"

section \<open>The guider\<close>

text \<open>\<open>FATAL(msg)\<close>: \<open>perror(msg); exit(1)\<close>.\<close>

definition fatal :: "state \<Rightarrow> state" where
  "fatal s = s\<lparr>status := Exited 1\<rparr>"

definition phd_connect :: "config \<Rightarrow> state \<Rightarrow> state" where
  "phd_connect c s =
     (if phd_dither_size c = 0 then s
      else
        (let s1 = atom c (\<lambda>s. if sock_ret s = - 1 then fatal (s\<lparr>phd_fd := sock_ret s\<rparr>)
                               else s\<lparr>phd_fd := sock_ret s\<rparr>) s;
             s2 = atom c (\<lambda>s. if resolve_ok s then s else fatal s) s1
         in atom c (\<lambda>s. if connect_ok s then s else fatal s) s2))"

definition phd_disconnect :: "config \<Rightarrow> state \<Rightarrow> state" where
  "phd_disconnect c s = (if phd_fd s \<noteq> - 1 then atom c (emit Close_guider) s else s)"

definition phd_cmds :: "u8 list" where
  "phd_cmds = [3, 4, 5, 12, 13]"

text \<open>
  \<open>&phd_cmds[phd_dither_size]\<close>: the entry at that index, \<open>None\<close> outside the five
  entries of the array.
\<close>

definition phd_cmd_at :: "u32 \<Rightarrow> u8 option" where
  "phd_cmd_at n = (if unat n < length phd_cmds then Some (phd_cmds ! unat n) else None)"

definition guider_write :: "u8 \<Rightarrow> state \<Rightarrow> state" where
  "guider_write b s =
     (case wr_ret s of
        [] \<Rightarrow> emit (Guider_write b) s
      | r # rs \<Rightarrow>
          if r \<noteq> 1 then fatal (s\<lparr>wr_ret := rs\<rparr>)
          else emit (Guider_write b) (s\<lparr>wr_ret := rs\<rparr>))"

definition guider_read :: "state \<Rightarrow> state" where
  "guider_read s =
     (case rd_ret s of
        [] \<Rightarrow> emit Guider_read s
      | (r, b) # rs \<Rightarrow>
          if r \<noteq> 1 then fatal (s\<lparr>rd_ret := rs\<rparr>)
          else emit Guider_read (s\<lparr>rd_ret := rs\<rparr>))"

definition phd_dither :: "config \<Rightarrow> state \<Rightarrow> state" where
  "phd_dither c s =
     (let s1 = atom c (\<lambda>s. case phd_cmd_at (phd_dither_size c) of
                              None \<Rightarrow> s\<lparr>status := Undefined\<rparr>
                            | Some b \<Rightarrow> guider_write b s) s
      in atom c guider_read s1)"

section \<open>One exposure\<close>

text \<open>
  \<open>expose\<close> ignores its parameter and reads \<open>exp_time\<close>. The result is \<open>None\<close> when
  the timed wait never returns.
\<close>

definition timed_exposure :: "config \<Rightarrow> state \<Rightarrow> state option" where
  "timed_exposure c s =
     (let s1 = atom c (\<lambda>s. s\<lparr>exp_start := gettimeofday s\<rparr>) s;
          s2 = atom c (\<lambda>s. s\<lparr>exposing := True\<rparr>) s1
      in (case sleep_verbose c (exp_time c) s2 of
            None \<Rightarrow> None
          | Some s3 \<Rightarrow>
              (let s4 = atom c (\<lambda>s. s\<lparr>exposing := False\<rparr>) s3;
                   s5 = atom c (\<lambda>s. s\<lparr>exp_end := gettimeofday s\<rparr>) s4
               in Some (shutter_release c s5))))"

definition expose :: "config \<Rightarrow> u32 \<Rightarrow> state \<Rightarrow> state option" where
  "expose c msec s =
     (if mlu_method c = 1 then
        (let s1 = shutter_fire c s;
             s2 = sleep_quiet c (mlu_delay c) s1
         in timed_exposure c s2)
      else if mlu_method c = 2 then
        (let s1 = shutter_fire c s;
             s2 = sleep_quiet c (shut_min_pulse c) s1;
             s3 = shutter_release c s2;
             s4 = sleep_quiet c (mlu_delay c) s3;
             s5 = shutter_fire c s4
         in timed_exposure c s5)
      else Some (atom c (emit (Print_unknown_mlu (mlu_method c))) s))"

section \<open>The sequencer\<close>

definition mark :: "(u32 \<Rightarrow> action) \<Rightarrow> state \<Rightarrow> state" where
  "mark f s = (if status s = Running then emit (f (mctrl s)) s else s)"

text \<open>The body of the \<open>for\<close> loop of \<open>main\<close>, for the frame \<open>i\<close>.\<close>

definition frame :: "config \<Rightarrow> u32 \<Rightarrow> state \<Rightarrow> state option" where
  "frame c i s =
     (let s1 = (if i \<noteq> 1 \<and> phd_dither_size c \<noteq> 0
                then phd_dither c (atom c (emit Print_dithering) s) else s);
          s2 = atom c (\<lambda>s. s\<lparr>verbose := (i, exp_count c)\<rparr>) s1;
          s3 = (if i \<noteq> 1 then sleep_quiet c (exp_pause c) s2 else s2)
      in (case expose c (exp_time c) (mark Call_expose s3) of
            None \<Rightarrow> None
          | Some s4 \<Rightarrow> Some (atom c (log_exposure c) (mark Return_expose s4))))"

text \<open>
  \<open>for (i = 1; i <= exp_count; i++)\<close>, from the test of the frame \<open>i\<close> on; \<open>i\<close> is
  an \<open>unsigned int\<close> and \<open>i++\<close> wraps.
\<close>

partial_function (option) frames :: "config \<Rightarrow> u32 \<Rightarrow> state \<Rightarrow> state option" where
  "frames c i s =
     (if status s \<noteq> Running then Some s
      else if i \<le> exp_count c then
        (case frame c i s of
           None \<Rightarrow> None
         | Some s1 \<Rightarrow> frames c (i + 1) s1)
      else Some s)"

text \<open>
  \<open>main\<close> from the point where the serial device is open and the handler installed:
  \<open>start\<close> is what precedes the loop, and \<open>return 0\<close> ends the process with status 0.
\<close>

definition start :: "config \<Rightarrow> state \<Rightarrow> state" where
  "start c s = phd_connect c (shutter_release c s)"

definition finish :: "config \<Rightarrow> state \<Rightarrow> state" where
  "finish c s =
     (let s1 = phd_disconnect c s
      in if status s1 = Running then s1\<lparr>status := Exited 0\<rparr> else s1)"

definition main :: "config \<Rightarrow> state \<Rightarrow> state option" where
  "main c s =
     (case frames c 1 (start c s) of
        None \<Rightarrow> None
      | Some s1 \<Rightarrow> Some (finish c s1))"

section \<open>Notions used to state the properties\<close>

text \<open>
  A run is undisturbed from a state on when the process is running and no SIGINT is
  pending. The wake-ups of \<open>nanosleep\<close> by other signals may still come.
\<close>

definition calm :: "state \<Rightarrow> bool" where
  "calm s \<longleftrightarrow> status s = Running \<and> sigint s = None"

text \<open>What is left of the wake-up schedule after \<open>t\<close> nanoseconds of sleep.\<close>

fun drain :: "nat \<Rightarrow> nat list \<Rightarrow> nat list" where
  "drain t [] = []"
| "drain t (e # es) = (if e < t then drain (t - e) es else (e - t) # es)"

text \<open>The trace without the console feedback.\<close>

fun is_console :: "action \<Rightarrow> bool" where
  "is_console (Print_progress l p g) = True"
| "is_console (Print_done l) = True"
| "is_console Print_dithering = True"
| "is_console (Print_unknown_mlu m) = True"
| "is_console _ = False"

definition hush :: "(nat \<times> action) list \<Rightarrow> (nat \<times> action) list" where
  "hush tr = filter (\<lambda>e. \<not> is_console (snd e)) tr"

text \<open>
  The guider answers: every write and read still to come on its socket returns 1.
  Connecting works: \<open>socket\<close>, \<open>gethostbyname\<close> and \<open>connect\<close> succeed.
\<close>

definition answering :: "state \<Rightarrow> bool" where
  "answering s \<longleftrightarrow> list_all (\<lambda>r. r = 1) (wr_ret s) \<and> list_all (\<lambda>p. fst p = 1) (rd_ret s)"

definition connecting :: "state \<Rightarrow> bool" where
  "connecting s \<longleftrightarrow> sock_ret s \<noteq> - 1 \<and> resolve_ok s \<and> connect_ok s"

text \<open>The number of dither commands written in a trace.\<close>

fun is_guider_write :: "action \<Rightarrow> bool" where
  "is_guider_write (Guider_write b) = True"
| "is_guider_write _ = False"

definition dithers :: "(nat \<times> action) list \<Rightarrow> nat" where
  "dithers tr = length (filter (\<lambda>e. is_guider_write (snd e)) tr)"

text \<open>
  What an undisturbed turn of the loop of \<open>sleep_verbose\<close> does to the state, and what
  \<open>k\<close> turns in a row do: the feedback is printed, the animation moves on, 500 ms pass.
\<close>

definition tick_once :: "u32 \<Rightarrow> u32 \<Rightarrow> state \<Rightarrow> state" where
  "tick_once msec sofar s =
     s\<lparr>animation_step := (animation_step s + 1) mod 8,
       trace := trace s @ [(clock s, Print_progress (verbose s) (100 * sofar div msec)
                                      (animation ! animation_step s))],
       clock := clock s + 500000000, eintr := drain 500000000 (eintr s)\<rparr>"

fun ticked :: "u32 \<Rightarrow> u32 \<Rightarrow> nat \<Rightarrow> state \<Rightarrow> state" where
  "ticked msec sofar 0 s = s"
| "ticked msec sofar (Suc k) s = ticked msec (sofar + 500) k (tick_once msec sofar s)"

text \<open>What the process has done, console feedback aside.\<close>

definition deeds :: "state \<Rightarrow> (nat \<times> action) list" where
  "deeds s = hush (trace s)"

text \<open>
  The line is released whenever the sequencer calls \<open>expose\<close> and whenever \<open>expose\<close>
  returns: every marker of the trace carries modem-control bits with RTS clear.
\<close>

fun marker_ok :: "action \<Rightarrow> bool" where
  "marker_ok (Call_expose m) = (m AND TIOCM_RTS = 0)"
| "marker_ok (Return_expose m) = (m AND TIOCM_RTS = 0)"
| "marker_ok _ = True"

definition markers_ok :: "(nat \<times> action) list \<Rightarrow> bool" where
  "markers_ok tr = list_all (\<lambda>e. marker_ok (snd e)) tr"

text \<open>
  \<open>at_rest\<close>: the line is released, and so it was at every call and return of
  \<open>expose\<close> so far. \<open>guarded\<close>: the same, but while the process runs the line may be
  engaged.
\<close>

definition guarded :: "state \<Rightarrow> bool" where
  "guarded s \<longleftrightarrow> markers_ok (trace s) \<and> (status s \<noteq> Running \<longrightarrow> released s)"

definition at_rest :: "state \<Rightarrow> bool" where
  "at_rest s \<longleftrightarrow> markers_ok (trace s) \<and> released s"

text \<open>
  \<open>untouched s s1\<close>: from \<open>s\<close> to \<open>s1\<close> the process has kept running and has only
  waited, written the control line (RTS only) and printed feedback; the exposure record
  and the guider socket are as they were. \<open>outcome c s s'\<close>: \<open>s'\<close> is such a state,
  or what the handler makes of such a state.
\<close>

fun is_line_or_console :: "action \<Rightarrow> bool" where
  "is_line_or_console (Tiocmset m) = True"
| "is_line_or_console a = is_console a"

definition untouched :: "state \<Rightarrow> state \<Rightarrow> bool" where
  "untouched s s1 \<longleftrightarrow>
     status s1 = Running \<and> exposing s1 = exposing s \<and> exp_start s1 = exp_start s
     \<and> exp_end s1 = exp_end s \<and> phd_fd s1 = phd_fd s
     \<and> mctrl s1 AND NOT TIOCM_RTS = mctrl s AND NOT TIOCM_RTS
     \<and> trace s1 = trace s @ drop (length (trace s)) (trace s1)
     \<and> list_all (\<lambda>e. is_line_or_console (snd e)) (drop (length (trace s)) (trace s1))"

definition outcome :: "config \<Rightarrow> state \<Rightarrow> state \<Rightarrow> bool" where
  "outcome c s s' \<longleftrightarrow> untouched s s' \<or> (\<exists>si. untouched s si \<and> s' = exit_cleanup c si)"

text \<open>
  What the handler adds to the trace when it leaves the state \<open>s'\<close>: the release, the
  log line of the exposure begun at \<open>begun\<close> when there is one to log, the closing of
  the serial device.
\<close>

definition farewell :: "config \<Rightarrow> state \<Rightarrow> nat \<Rightarrow> bool \<Rightarrow> (nat \<times> action) list" where
  "farewell c s' begun logged =
     [(clock s', Tiocmset (mctrl s'))]
     @ (if logged then (case log_target c of
                          None \<Rightarrow> []
                        | Some l \<Rightarrow> [(clock s', Log_line l begun (clock s' div 1000))])
        else [])
     @ [(clock s', Close_serial)]"

text \<open>
  \<open>atoi(optarg) * 1000\<close>, as the options \<open>-t\<close>, \<open>-p\<close> and \<open>-M\<close> compute their
  values from the number \<open>n\<close> that \<open>atoi\<close> returns: a product of two \<open>int\<close>, which
  has no defined value when it leaves the range of \<open>int\<close>.
\<close>

definition seconds :: "int \<Rightarrow> u32 option" where
  "seconds n =
     (if - 2147483648 \<le> n * 1000 \<and> n * 1000 \<le> 2147483647
      then Some (word_of_int (n * 1000)) else None)"

text \<open>
  The option \<open>-d\<close>: \<open>phd_dither_size = atoi(optarg); if (phd_dither_size > 5) { usage();
  exit(0); }\<close>. \<open>None\<close> is the refusal.
\<close>

definition dither_option :: "int \<Rightarrow> u32 option" where
  "dither_option n = (let d = word_of_int n :: u32 in if d > 5 then None else Some d)"

section \<open>A concrete run\<close>

text \<open>
  The values the program starts with when no option is given, and a state as \<open>main\<close>
  finds it once the serial device is open: DTR and RTS raised, nothing pending.
\<close>

definition defaults :: config where
  "defaults = \<lparr>exp_count = 1, exp_time = 1000, exp_pause = 5000, phd_dither_size = 0,
     log_target = None, mlu_method = 2, mlu_delay = 2000, shut_min_pulse = 200,
     quiet = False\<rparr>"

definition boot :: state where
  "boot = \<lparr>mctrl = 0x006, exposing = False, exp_start = 0, exp_end = 0,
     animation_step = 0, verbose = (0, 0), phd_fd = - 1, clock = 0, trace = [],
     status = Running, sigint = None, eintr = [], wr_ret = [], rd_ret = [],
     sock_ret = 3, resolve_ok = True, connect_ok = True\<rparr>"

text \<open>The defaults with an MLU method that does not exist, and a label for the log.\<close>

definition unknown_mlu :: config where
  "unknown_mlu = defaults\<lparr>mlu_method := 3, log_target := Some ''M31''\<rparr>"

text \<open>
  Dither at level 1, with \<open>-c -1\<close>, which \<open>atoi\<close> and the conversion to
  \<open>unsigned int\<close> make the exposure count 4294967295, and with three exposures.
\<close>

definition forever :: config where
  "forever = defaults\<lparr>exp_count := 4294967295, phd_dither_size := 1\<rparr>"

definition three_dithered :: config where
  "three_dithered = defaults\<lparr>exp_count := 3, phd_dither_size := 1\<rparr>"

text \<open>
  The defaults with the exposure time 4294967000 ms. The option \<open>-t 4294967\<close> asks for
  it: \<open>4294967 * 1000\<close> leaves the range of \<open>int\<close>, and where the product wraps
  \<open>exp_time\<close> becomes 4294967000.
\<close>

definition long_exposure :: config where
  "long_exposure = defaults\<lparr>exp_time := 4294967000\<rparr>"


section \<open>Properties\<close>

subsection \<open>Field projections of the basic steps\<close>

lemma rts_bits_other: "rts_bits on cbits AND NOT TIOCM_RTS = cbits AND NOT TIOCM_RTS"
  by (auto simp: rts_bits_def bit_eq_iff bit_simps)

lemma rts_bits_idem: "rts_bits on (rts_bits on cbits) = rts_bits on cbits"
  by (auto simp: rts_bits_def bit_eq_iff bit_simps)

lemma emit_simps [simp]:
  "mctrl (emit a s) = mctrl s" "status (emit a s) = status s" "clock (emit a s) = clock s"
  "exposing (emit a s) = exposing s" "sigint (emit a s) = sigint s" "eintr (emit a s) = eintr s"
  "exp_start (emit a s) = exp_start s" "exp_end (emit a s) = exp_end s"
  "phd_fd (emit a s) = phd_fd s" "trace (emit a s) = trace s @ [(clock s, a)]"
  by (simp_all add: emit_def)

lemma log_exposure_simps [simp]:
  "mctrl (log_exposure c s) = mctrl s" "status (log_exposure c s) = status s"
  "clock (log_exposure c s) = clock s" "exposing (log_exposure c s) = exposing s"
  "sigint (log_exposure c s) = sigint s" "eintr (log_exposure c s) = eintr s"
  "exp_start (log_exposure c s) = exp_start s" "exp_end (log_exposure c s) = exp_end s"
  "phd_fd (log_exposure c s) = phd_fd s"
  by (simp_all add: log_exposure_def split: option.splits)

lemma exit_cleanup_simps [simp]:
  "mctrl (exit_cleanup c s) = rts_bits False (mctrl s)"
  "status (exit_cleanup c s) = Exited 0"
  "clock (exit_cleanup c s) = clock s"
  "exposing (exit_cleanup c s) = False"
  "phd_fd (exit_cleanup c s) = phd_fd s"
  by (simp_all add: exit_cleanup_def tiocmset_def Let_def)

lemma atom_other:
  assumes "\<And>s. mctrl (f s) AND NOT TIOCM_RTS = mctrl s AND NOT TIOCM_RTS"
  shows "mctrl (atom c f s) AND NOT TIOCM_RTS = mctrl s AND NOT TIOCM_RTS"
  using assms [of "s\<lparr>sigint := tick (sigint s)\<rparr>"] by (simp add: atom_def rts_bits_other)

lemma set_rts_other: "mctrl (set_rts c on s) AND NOT TIOCM_RTS = mctrl s AND NOT TIOCM_RTS"
proof -
  have 1: "mctrl (atom c (\<lambda>s. s) s) AND NOT TIOCM_RTS = mctrl s AND NOT TIOCM_RTS"
    by (rule atom_other) simp
  have "mctrl (set_rts c on s) AND NOT TIOCM_RTS = rts_bits on (mctrl (atom c (\<lambda>s. s) s)) AND NOT TIOCM_RTS"
    by (simp add: set_rts_def Let_def atom_def tiocmset_def rts_bits_other)
  with 1 show ?thesis by (simp add: rts_bits_other)
qed

lemma atom_Running: "status (atom c f s) = Running \<Longrightarrow> status s = Running \<and> \<not> due s \<and> atom c f s = f (s\<lparr>sigint := tick (sigint s)\<rparr>)"
  by (auto simp: atom_def split: if_splits)

lemma set_rts_Running:
  "status (set_rts c on s) = Running \<Longrightarrow> mctrl (set_rts c on s) = rts_bits on (mctrl s) \<and> status s = Running"
  by (auto simp: set_rts_def Let_def atom_def tiocmset_def split: if_splits)

lemma dtr_other: "x AND NOT TIOCM_RTS = y AND NOT TIOCM_RTS \<Longrightarrow> x AND TIOCM_DTR = y AND TIOCM_DTR"
proof -
  assume a: "x AND NOT TIOCM_RTS = y AND NOT TIOCM_RTS"
  have "TIOCM_DTR AND NOT TIOCM_RTS = TIOCM_DTR" by (simp add: TIOCM_DTR_def TIOCM_RTS_def)
  then have "x AND TIOCM_DTR = (x AND NOT TIOCM_RTS) AND TIOCM_DTR" "y AND TIOCM_DTR = (y AND NOT TIOCM_RTS) AND TIOCM_DTR"
    by (metis and.assoc and.commute)+
  with a show ?thesis by simp
qed

subsection \<open>Undisturbed waits\<close>

lemma calm_upd [simp]:
  "calm (s\<lparr>clock := k\<rparr>) = calm s" "calm (s\<lparr>eintr := es\<rparr>) = calm s"
  "calm (s\<lparr>trace := tr\<rparr>) = calm s" "calm (s\<lparr>animation_step := n\<rparr>) = calm s"
  "calm (s\<lparr>mctrl := m\<rparr>) = calm s" "calm (s\<lparr>exposing := b\<rparr>) = calm s"
  "calm (s\<lparr>exp_start := x\<rparr>) = calm s" "calm (s\<lparr>exp_end := x\<rparr>) = calm s"
  "calm (s\<lparr>verbose := v\<rparr>) = calm s" "calm (s\<lparr>phd_fd := fd\<rparr>) = calm s"
  "calm (s\<lparr>wr_ret := w\<rparr>) = calm s" "calm (s\<lparr>rd_ret := r\<rparr>) = calm s"
  "calm (emit a s) = calm s"
  by (simp_all add: calm_def emit_def)

lemma sigint_None_upd: "sigint s = None \<Longrightarrow> s\<lparr>sigint := None\<rparr> = s"
  by (cases s) simp

lemma atom_calm: "calm s \<Longrightarrow> atom c f s = f s"
  by (simp add: atom_def calm_def due_def tick_def sigint_None_upd)

lemma sleep_again_calm:
  "calm s \<Longrightarrow> sleep_again c t s = s\<lparr>clock := clock s + t, eintr := drain t (eintr s)\<rparr>"
proof (induction "eintr s" arbitrary: s t)
  case Nil
  then show ?case
    by (subst sleep_again.simps) (simp add: calm_def due_def tick_def nanosleep_def sigint_None_upd)
next
  case (Cons e es)
  from Cons.hyps(2) have e: "eintr s = e # es" by simp
  show ?case
  proof (cases "e < t")
    case True
    let ?s1 = "s\<lparr>clock := clock s + e, eintr := es\<rparr>"
    have "sleep_again c t s = sleep_again c (t - e) ?s1"
      using Cons.prems e True
      by (subst sleep_again.simps) (simp add: calm_def due_def tick_def nanosleep_def sigint_None_upd)
    also have "\<dots> = ?s1\<lparr>clock := clock ?s1 + (t - e), eintr := drain (t - e) (eintr ?s1)\<rparr>"
      using Cons.prems by (intro Cons.hyps(1)) simp_all
    finally show ?thesis using e True by simp
  next
    case False
    then show ?thesis
      using Cons.prems e
      by (subst sleep_again.simps) (simp add: calm_def due_def tick_def nanosleep_def sigint_None_upd)
  qed
qed

lemma ns_of_msec:
  "ns_of \<lparr>tv_sec = unat (msec div 1000),
          tv_nsec = unat ((msec - msec div 1000 * 1000) * 1000000)\<rparr> = unat (msec :: u32) * 1000000"
proof -
  have 1: "msec - msec div 1000 * 1000 = msec mod 1000"
    by (simp add: minus_div_mult_eq_mod)
  have 2: "unat (msec mod 1000) = unat msec mod 1000"
    by (simp add: unat_mod)
  have "unat (msec mod 1000) * unat (1000000 :: u32) < 2 ^ LENGTH(32)"
    using 2 by simp
  then have 3: "unat (msec mod 1000 * 1000000) = unat msec mod 1000 * 1000000"
    using 2 by (simp add: unat_mult_lem [THEN iffD1])
  have 4: "unat (msec div 1000) = unat msec div 1000"
    by (simp add: unat_div)
  have "unat msec * 1000000 = (unat msec div 1000 * 1000 + unat msec mod 1000) * 1000000"
    by simp
  also have "\<dots> = unat msec div 1000 * 1000000000 + unat msec mod 1000 * 1000000"
    unfolding add_mult_distrib mult.assoc by simp
  finally show ?thesis
    unfolding ns_of_def 1 by (simp add: 3 4)
qed

lemma sleep_quiet_calm:
  "calm s \<Longrightarrow> sleep_quiet c msec s =
     s\<lparr>clock := clock s + unat msec * 1000000, eintr := drain (unat msec * 1000000) (eintr s)\<rparr>"
  unfolding sleep_quiet_def Let_def ns_of_msec by (rule sleep_again_calm)

lemma drain_0 [simp]: "drain 0 es = es"
  by (cases es) simp_all

lemma drain_add: "drain b (drain a es) = drain (a + b) es"
  by (induction es arbitrary: a) (auto simp: add.commute)

lemma hush_append [simp]: "hush (xs @ ys) = hush xs @ hush ys"
  by (simp add: hush_def)

lemma hush_simps [simp]: "hush [] = []" "hush ((t, a) # tr) = (if is_console a then hush tr else (t, a) # hush tr)"
  by (simp_all add: hush_def)

lemma step_no_wrap:
  assumes "unat (msec :: u32) < 4294967000" "500 dvd unat (sofar :: u32)" "unat sofar \<le> unat msec"
  shows "unat (sofar + 500) = unat sofar + 500"
proof -
  from assms(2) obtain k where k: "unat sofar = 500 * k" by (auto simp: dvd_def)
  with assms have "500 * k < 500 * 8589934" by simp
  then have "k < 8589934" by simp
  then have "unat sofar + 500 \<le> 4294967000" using k by simp
  then show ?thesis by (simp add: unat_word_ariths)
qed

lemma verbose_loop_calm:
  assumes "calm s" "unat msec < 4294967000" "500 dvd unat sofar" "unat sofar \<le> unat msec"
  shows "\<exists>sofar' n tr. verbose_loop c msec sofar s =
             Some (sofar', s\<lparr>clock := clock s + (unat sofar' - unat sofar) * 1000000,
                              eintr := drain ((unat sofar' - unat sofar) * 1000000) (eintr s),
                              animation_step := n, trace := tr\<rparr>)
           \<and> unat sofar' = unat msec div 500 * 500 \<and> hush tr = hush (trace s)"
  using assms
proof (induction "unat msec - unat sofar" arbitrary: sofar s rule: less_induct)
  case less
  have nw: "unat (sofar + 500) = unat sofar + 500"
    using less.prems by (intro step_no_wrap)
  have run: "status s = Running" using less.prems(1) by (simp add: calm_def)
  show ?case
  proof (cases "sofar + 500 \<le> msec")
    case True
    then have le: "unat sofar + 500 \<le> unat msec"
      using nw by (simp add: word_le_nat_alt)
    define s3 where "s3 = sleep_quiet c ANIMATION_STEP
      (atom c (\<lambda>s. s\<lparr>animation_step := animation_step s mod ANIMATION_LEN\<rparr>)
        (atom c (\<lambda>s. emit (Print_progress (verbose s) (100 * sofar div msec)
                                      (animation ! animation_step s))
                                (s\<lparr>animation_step := animation_step s + 1\<rparr>)) s))"
    have s3: "s3 = s\<lparr>animation_step := (animation_step s + 1) mod 8,
        trace := trace s @ [(clock s, Print_progress (verbose s) (100 * sofar div msec)
                                      (animation ! animation_step s))],
        clock := clock s + 500000000, eintr := drain 500000000 (eintr s)\<rparr>"
      using less.prems(1)
      by (simp add: s3_def atom_calm sleep_quiet_calm ANIMATION_STEP_def ANIMATION_LEN_def emit_def)
    have c3: "calm s3" using less.prems(1) by (simp add: s3)
    have unf: "verbose_loop c msec sofar s = verbose_loop c msec (sofar + 500) s3"
      using run True
      by (subst verbose_loop.simps) (simp add: s3_def Let_def ANIMATION_STEP_def)
    have "\<exists>sofar' n tr. verbose_loop c msec (sofar + 500) s3 =
             Some (sofar', s3\<lparr>clock := clock s3 + (unat sofar' - unat (sofar + 500)) * 1000000,
                     eintr := drain ((unat sofar' - unat (sofar + 500)) * 1000000) (eintr s3),
                     animation_step := n, trace := tr\<rparr>)
           \<and> unat sofar' = unat msec div 500 * 500 \<and> hush tr = hush (trace s3)"
      using less.prems nw le c3 by (intro less.hyps) simp_all
    then obtain sofar' n tr where r: "verbose_loop c msec (sofar + 500) s3 =
             Some (sofar', s3\<lparr>clock := clock s3 + (unat sofar' - unat (sofar + 500)) * 1000000,
                     eintr := drain ((unat sofar' - unat (sofar + 500)) * 1000000) (eintr s3),
                     animation_step := n, trace := tr\<rparr>)"
      "unat sofar' = unat msec div 500 * 500" "hush tr = hush (trace s3)"
      by blast
    have ge: "unat sofar + 500 \<le> unat sofar'"
    proof -
      from less.prems(3) obtain k where k: "unat sofar = 500 * k" by (auto simp: dvd_def)
      with le have "k + 1 \<le> unat msec div 500" by simp
      then have "(k + 1) * 500 \<le> unat msec div 500 * 500" by simp
      with k r(2) show ?thesis by simp
    qed
    have t: "500000000 + (unat sofar' - (unat sofar + 500)) * 1000000 = (unat sofar' - unat sofar) * 1000000"
      using ge by (simp add: diff_mult_distrib)
    have "verbose_loop c msec sofar s =
             Some (sofar', s\<lparr>clock := clock s + (unat sofar' - unat sofar) * 1000000,
                              eintr := drain ((unat sofar' - unat sofar) * 1000000) (eintr s),
                              animation_step := n, trace := tr\<rparr>)"
      unfolding unf r(1) using t by (simp add: s3 nw drain_add add.assoc)
    moreover have "hush tr = hush (trace s)"
      using r(3) by (simp add: s3)
    ultimately show ?thesis using r(2) by blast
  next
    case False
    then have gt: "unat msec < unat sofar + 500"
      using nw by (simp add: word_le_nat_alt)
    from less.prems(3) obtain k where k: "unat sofar = 500 * k" by (auto simp: dvd_def)
    have "unat msec div 500 = k" using gt less.prems(4) k by (simp add: div_nat_eqI)
    then have eq: "unat sofar = unat msec div 500 * 500" using k by simp
    have "verbose_loop c msec sofar s = Some (sofar, s)"
      using run False by (subst verbose_loop.simps) (simp add: ANIMATION_STEP_def)
    then have "verbose_loop c msec sofar s =
             Some (sofar, s\<lparr>clock := clock s + (unat sofar - unat sofar) * 1000000,
                              eintr := drain ((unat sofar - unat sofar) * 1000000) (eintr s),
                              animation_step := animation_step s, trace := trace s\<rparr>)"
      by simp
    then show ?thesis using eq by blast
  qed
qed

lemma calm_boot: "calm boot"
  by (simp add: calm_def boot_def)

lemma seconds_bound:
  assumes "seconds n = Some m"
  shows "unat m < 4294967000"
proof -
  from assms have r: "- 2147483648 \<le> n * 1000" "n * 1000 \<le> 2147483647"
    and m: "m = word_of_int (n * 1000)"
    by (auto simp: seconds_def split: if_splits)
  have "uint m = (n * 1000) mod 4294967296"
    unfolding m by (simp only: uint_word_of_int) simp
  moreover have "(n * 1000) mod 4294967296 < 4294967000"
  proof (cases "0 \<le> n")
    case True
    then have "(n * 1000) mod 4294967296 = n * 1000"
      using r by (intro mod_pos_pos_trivial) simp_all
    then show ?thesis using r by simp
  next
    case False
    then have neg: "n * 1000 \<le> - 1000" by simp
    have "(n * 1000 + 4294967296) mod 4294967296 = n * 1000 + 4294967296"
      using r neg by (intro mod_pos_pos_trivial) simp_all
    moreover have "(n * 1000 + 4294967296) mod 4294967296 = (n * 1000) mod 4294967296"
      by (simp only: mod_add_self2)
    ultimately show ?thesis using neg by simp
  qed
  ultimately have "uint m < 4294967000" by simp
  moreover have "int (unat m) = uint m" by simp
  ultimately show ?thesis by linarith
qed

subsection \<open>The shutter operations touch RTS only\<close>

text \<open>
  C10. Whatever the modem-control bits were, \<open>shutter_fire\<close> and \<open>shutter_release\<close>
  leave every bit other than RTS as they found it, DTR among them (also when SIGINT
  cuts the call short, since the handler clears RTS only). A call that returns has set,
  respectively cleared, RTS, and a second call that returns changes nothing.
\<close>

theorem shutter_only_rts:
  "mctrl (shutter_fire c s) AND NOT TIOCM_RTS = mctrl s AND NOT TIOCM_RTS
   \<and> mctrl (shutter_release c s) AND NOT TIOCM_RTS = mctrl s AND NOT TIOCM_RTS
   \<and> mctrl (shutter_fire c s) AND TIOCM_DTR = mctrl s AND TIOCM_DTR
   \<and> mctrl (shutter_release c s) AND TIOCM_DTR = mctrl s AND TIOCM_DTR
   \<and> (status (shutter_fire c s) = Running \<longrightarrow> mctrl (shutter_fire c s) = mctrl s OR TIOCM_RTS)
   \<and> (status (shutter_release c s) = Running \<longrightarrow> mctrl (shutter_release c s) = mctrl s AND NOT TIOCM_RTS)
   \<and> (status (shutter_fire c (shutter_fire c s)) = Running \<longrightarrow>
        mctrl (shutter_fire c (shutter_fire c s)) = mctrl (shutter_fire c s))
   \<and> (status (shutter_release c (shutter_release c s)) = Running \<longrightarrow>
        mctrl (shutter_release c (shutter_release c s)) = mctrl (shutter_release c s))"
proof -
  have idem: "status (set_rts c on (set_rts c on s)) = Running \<Longrightarrow>
      mctrl (set_rts c on (set_rts c on s)) = mctrl (set_rts c on s)" for on
  proof -
    assume r: "status (set_rts c on (set_rts c on s)) = Running"
    from set_rts_Running [OF r] have 1: "mctrl (set_rts c on (set_rts c on s)) = rts_bits on (mctrl (set_rts c on s))"
      and 2: "status (set_rts c on s) = Running" by simp_all
    from set_rts_Running [OF 2] have "mctrl (set_rts c on s) = rts_bits on (mctrl s)" by simp
    with 1 show ?thesis by (simp add: rts_bits_idem)
  qed
  show ?thesis
    unfolding shutter_fire_def shutter_release_def
    using set_rts_other [of c True s] set_rts_other [of c False s]
      dtr_other [OF set_rts_other [of c True s]] dtr_other [OF set_rts_other [of c False s]]
      set_rts_Running [of c True s] set_rts_Running [of c False s] idem [of True] idem [of False]
    by (simp add: rts_bits_def)
qed

theorem shutter_only_rts_witness:
  "status (shutter_fire defaults (shutter_fire defaults boot)) = Running
   \<and> status (shutter_release defaults (shutter_release defaults boot)) = Running
   \<and> mctrl (shutter_fire defaults boot) = 6
   \<and> mctrl (shutter_release defaults boot) = 2
   \<and> mctrl (shutter_fire defaults (shutter_fire defaults boot)) = 6
   \<and> mctrl (shutter_release defaults (shutter_release defaults boot)) = 2"
proof -
  have r: "status (shutter_fire defaults boot) = Running"
    "status (shutter_release defaults boot) = Running"
    "status (shutter_fire defaults (shutter_fire defaults boot)) = Running"
    "status (shutter_release defaults (shutter_release defaults boot)) = Running"
    by (simp_all add: shutter_fire_def shutter_release_def set_rts_def atom_def due_def
        tick_def tiocmset_def boot_def Let_def)
  have m: "mctrl boot = 6" by (simp add: boot_def)
  from shutter_only_rts [of defaults boot] r m show ?thesis
    by (simp add: TIOCM_RTS_def)
qed

lemma sleep_verbose_calm:
  assumes "calm s" and "quiet c \<or> unat msec < 4294967000"
  shows "\<exists>n tr. sleep_verbose c msec s =
             Some ((sleep_quiet c msec s)\<lparr>animation_step := n, trace := tr\<rparr>)
           \<and> hush tr = hush (trace s)
           \<and> clock (sleep_quiet c msec s) = clock s + unat msec * 1000000
           \<and> mctrl (sleep_quiet c msec s) = mctrl s
           \<and> calm (sleep_quiet c msec s)"
proof (cases "quiet c")
  case True
  show ?thesis
    using True assms(1)
    by (intro exI [of _ "animation_step s"] exI [of _ "trace s"])
       (simp add: sleep_verbose_def sleep_quiet_calm)
next
  case False
  with assms(2) have b: "unat msec < 4294967000" by simp
  from verbose_loop_calm [OF assms(1) b, of 0 c]
  obtain sofar n tr where r: "verbose_loop c msec 0 s =
             Some (sofar, s\<lparr>clock := clock s + unat sofar * 1000000,
                              eintr := drain (unat sofar * 1000000) (eintr s),
                              animation_step := n, trace := tr\<rparr>)"
      "unat sofar = unat msec div 500 * 500" "hush tr = hush (trace s)"
    by auto
  have le: "unat sofar \<le> unat msec" using r(2) by simp
  then have sub: "unat (msec - sofar) = unat msec - unat sofar"
    by (simp add: unat_sub word_le_nat_alt)
  have t: "unat sofar * 1000000 + (unat msec - unat sofar) * 1000000 = unat msec * 1000000"
    using le by (simp add: add_mult_distrib [symmetric])
  have sv: "sleep_verbose c msec s =
     Some ((sleep_quiet c msec s)\<lparr>animation_step := n,
        trace := tr @ [(clock s + unat msec * 1000000, Print_done (verbose s))]\<rparr>)"
    using False assms(1) t
    by (simp add: sleep_verbose_def r(1) sleep_quiet_calm atom_calm sub emit_def drain_add add.assoc)
  have h: "hush (tr @ [(clock s + unat msec * 1000000, Print_done (verbose s))]) = hush (trace s)"
    using r(3) by simp
  show ?thesis
    using assms(1) h
    by (intro exI [of _ n] exI [of _ "tr @ [(clock s + unat msec * 1000000, Print_done (verbose s))]"])
       (simp add: sv sleep_quiet_calm)
qed

subsection \<open>The timed wait with feedback\<close>

lemma ticked_shape:
  "\<exists>n tr. ticked msec sofar k s =
      s\<lparr>clock := clock s + k * 500000000, eintr := drain (k * 500000000) (eintr s),
        animation_step := n, trace := tr\<rparr>
    \<and> hush tr = hush (trace s)"
proof (induction k arbitrary: sofar s)
  case 0
  have "ticked msec sofar 0 s = s\<lparr>clock := clock s + 0 * 500000000,
      eintr := drain (0 * 500000000) (eintr s), animation_step := animation_step s,
      trace := trace s\<rparr>"
    by simp
  then show ?case by blast
next
  case (Suc k)
  from Suc [of "sofar + 500" "tick_once msec sofar s"]
  obtain n tr where r: "ticked msec (sofar + 500) k (tick_once msec sofar s) =
      (tick_once msec sofar s)\<lparr>clock := clock (tick_once msec sofar s) + k * 500000000,
        eintr := drain (k * 500000000) (eintr (tick_once msec sofar s)),
        animation_step := n, trace := tr\<rparr>"
    and h: "hush tr = hush (trace (tick_once msec sofar s))"
    by blast
  have "ticked msec sofar (Suc k) s =
      s\<lparr>clock := clock s + Suc k * 500000000, eintr := drain (Suc k * 500000000) (eintr s),
        animation_step := n, trace := tr\<rparr>"
    by (simp add: r) (simp add: tick_once_def drain_add add.assoc)
  moreover have "hush tr = hush (trace s)"
    using h by (simp add: tick_once_def)
  ultimately show ?case by blast
qed

lemma calm_ticked: "calm s \<Longrightarrow> calm (ticked msec sofar k s)"
  using ticked_shape [of msec sofar k s] by (auto simp: calm_def)

lemma loop_body_calm:
  "calm s \<Longrightarrow> sleep_quiet c ANIMATION_STEP
      (atom c (\<lambda>s. s\<lparr>animation_step := animation_step s mod ANIMATION_LEN\<rparr>)
        (atom c (\<lambda>s. emit (Print_progress (verbose s) (100 * sofar div msec)
                                      (animation ! animation_step s))
                                (s\<lparr>animation_step := animation_step s + 1\<rparr>)) s))
     = tick_once msec sofar s"
  by (simp add: atom_calm sleep_quiet_calm ANIMATION_STEP_def ANIMATION_LEN_def emit_def
      tick_once_def)

lemma verbose_loop_tick:
  assumes "calm s" and "sofar + 500 \<le> msec"
  shows "verbose_loop c msec sofar s = verbose_loop c msec (sofar + 500) (tick_once msec sofar s)"
proof -
  have "status s = Running" using assms(1) by (simp add: calm_def)
  then show ?thesis
    using assms(2) loop_body_calm [OF assms(1), of c sofar msec]
    by (subst verbose_loop.simps) (simp add: Let_def ANIMATION_STEP_def)
qed

lemma verbose_loop_ticks:
  assumes "calm s" and "unat sofar + 500 * k \<le> unat msec"
  shows "verbose_loop c msec sofar s
     = verbose_loop c msec (sofar + of_nat (500 * k)) (ticked msec sofar k s)"
  using assms
proof (induction k arbitrary: sofar s)
  case 0
  then show ?case by simp
next
  case (Suc k)
  have "unat sofar + 500 < 2 ^ LENGTH(32)"
    using Suc.prems(2) unsigned_less [of msec, where 'a = nat] by simp
  then have nw: "unat (sofar + 500) = unat sofar + 500"
    by (simp add: unat_word_ariths)
  then have le: "sofar + 500 \<le> msec"
    using Suc.prems(2) by (simp add: word_le_nat_alt)
  have c1: "calm (tick_once msec sofar s)"
    using Suc.prems(1) by (simp add: tick_once_def)
  have "verbose_loop c msec sofar s
      = verbose_loop c msec (sofar + 500) (tick_once msec sofar s)"
    using Suc.prems(1) le by (rule verbose_loop_tick)
  also have "\<dots> = verbose_loop c msec (sofar + 500 + of_nat (500 * k))
       (ticked msec (sofar + 500) k (tick_once msec sofar s))"
    using c1 Suc.prems(2) nw by (intro Suc.IH) simp_all
  finally show ?case by (simp add: add.assoc)
qed

lemma sleep_verbose_wrapped:
  assumes "calm s" and "\<not> quiet c"
  shows "\<exists>n tr. sleep_verbose c 4294967000 s =
      Some (s\<lparr>clock := clock s + 8589934296000000,
              eintr := drain 8589934296000000 (eintr s),
              animation_step := n, trace := tr\<rparr>)
    \<and> hush tr = hush (trace s)"
proof -
  define s1 where "s1 = ticked 4294967000 0 8589934 s"
  define s2 where "s2 = tick_once 4294967000 4294967000 s1"
  define s3 where "s3 = ticked 4294967000 204 8589933 s2"
  have c1: "calm s1" unfolding s1_def using assms(1) by (rule calm_ticked)
  have c2: "calm s2" unfolding s2_def using c1 by (simp add: tick_once_def)
  have c3: "calm s3" unfolding s3_def using c2 by (rule calm_ticked)
  have "verbose_loop c 4294967000 0 s
      = verbose_loop c 4294967000 (0 + of_nat (500 * 8589934)) s1"
    unfolding s1_def using assms(1) by (rule verbose_loop_ticks) simp
  also have "\<dots> = verbose_loop c 4294967000 4294967000 s1" by simp
  also have "\<dots> = verbose_loop c 4294967000 (4294967000 + 500) s2"
    unfolding s2_def using c1 by (rule verbose_loop_tick) (simp add: word_le_nat_alt)
  also have "\<dots> = verbose_loop c 4294967000 204 s2"
  proof -
    have "(4294967000 :: u32) + 500 = 204" by simp
    then show ?thesis by (simp only:)
  qed
  also have "\<dots> = verbose_loop c 4294967000 (204 + of_nat (500 * 8589933)) s3"
    unfolding s3_def using c2 by (rule verbose_loop_ticks) simp
  also have "\<dots> = verbose_loop c 4294967000 4294966704 s3" by simp
  also have "\<dots> = Some (4294966704, s3)"
    using c3 by (subst verbose_loop.simps) (simp add: calm_def ANIMATION_STEP_def word_le_nat_alt)
  finally have v: "verbose_loop c 4294967000 0 s = Some (4294966704, s3)" .
  from ticked_shape [of 4294967000 0 8589934 s]
  obtain n1 tr1 where r1: "s1 = s\<lparr>clock := clock s + 8589934 * 500000000,
       eintr := drain (8589934 * 500000000) (eintr s), animation_step := n1, trace := tr1\<rparr>"
    and h1: "hush tr1 = hush (trace s)"
    unfolding s1_def by blast
  from ticked_shape [of 4294967000 204 8589933 s2]
  obtain n3 tr3 where r3: "s3 = s2\<lparr>clock := clock s2 + 8589933 * 500000000,
       eintr := drain (8589933 * 500000000) (eintr s2), animation_step := n3, trace := tr3\<rparr>"
    and h3: "hush tr3 = hush (trace s2)"
    unfolding s3_def by blast
  have h2: "hush (trace s2) = hush (trace s)"
    using h1 by (simp add: s2_def tick_once_def r1)
  have e3: "s3 = s\<lparr>clock := clock s + 8589934000000000,
       eintr := drain 8589934000000000 (eintr s), animation_step := n3, trace := tr3\<rparr>"
    by (simp add: r3) (simp add: s2_def tick_once_def r1 drain_add add.assoc)
  have sv: "sleep_verbose c 4294967000 s =
      Some (s\<lparr>clock := clock s + 8589934296000000,
              eintr := drain 8589934296000000 (eintr s),
              animation_step := n3,
              trace := tr3 @ [(clock s + 8589934296000000, Print_done (verbose s))]\<rparr>)"
    using assms c3
    by (simp add: sleep_verbose_def v sleep_quiet_calm atom_calm emit_def)
       (simp add: e3 drain_add add.assoc)
  have "hush (tr3 @ [(clock s + 8589934296000000, Print_done (verbose s))]) = hush (trace s)"
    using h3 h2 by simp
  with sv show ?thesis by blast
qed

text \<open>
  For \<open>msec = 4294967295\<close> the sum \<open>sofar + ANIMATION_STEP\<close> is never above \<open>msec\<close>:
  the undisturbed wait with feedback never returns.
\<close>

lemma verbose_loop_forever:
  assumes "verbose_loop c msec sofar s = Some r"
  shows "\<not> (msec = 4294967295 \<and> calm s)"
proof (rule verbose_loop.raw_induct
    [where P = "\<lambda>c msec sofar s r. \<not> (msec = 4294967295 \<and> calm s)", OF _ assms])
  fix vl c msec sofar s r
  assume ih: "\<And>c msec sofar s r. vl c msec sofar s = Some r \<Longrightarrow> \<not> (msec = 4294967295 \<and> calm s)"
    and eq: "(if status s \<noteq> Running then Some (sofar, s)
      else if sofar + ANIMATION_STEP \<le> msec then
        (let s1 = atom c (\<lambda>s. emit (Print_progress (verbose s) (100 * sofar div msec)
                                      (animation ! animation_step s))
                                (s\<lparr>animation_step := animation_step s + 1\<rparr>)) s;
             s2 = atom c (\<lambda>s. s\<lparr>animation_step := animation_step s mod ANIMATION_LEN\<rparr>) s1;
             s3 = sleep_quiet c ANIMATION_STEP s2
         in vl c msec (sofar + ANIMATION_STEP) s3)
      else Some (sofar, s)) = Some r"
  show "\<not> (msec = 4294967295 \<and> calm s)"
  proof
    assume a0: "msec = 4294967295 \<and> calm s"
    then have a: "msec = - 1 \<and> calm s" by simp
    define s3 where "s3 = sleep_quiet c ANIMATION_STEP
      (atom c (\<lambda>s. s\<lparr>animation_step := animation_step s mod ANIMATION_LEN\<rparr>)
        (atom c (\<lambda>s. emit (Print_progress (verbose s) (100 * sofar div msec)
                                      (animation ! animation_step s))
                                (s\<lparr>animation_step := animation_step s + 1\<rparr>)) s))"
    have c3: "calm s3" using a by (simp add: s3_def atom_calm sleep_quiet_calm)
    have "vl c msec (sofar + ANIMATION_STEP) s3 = Some r"
      using eq a by (simp add: calm_def s3_def Let_def)
    from ih [OF this] a0 c3 show False by simp
  qed
qed

lemma sleep_verbose_forever: "sleep_verbose defaults 4294967295 boot = None"
proof -
  have "calm boot" by (simp add: calm_def boot_def)
  then have "verbose_loop defaults 4294967295 0 boot = None"
    using verbose_loop_forever [of defaults 4294967295 0 boot]
    by (cases "verbose_loop defaults 4294967295 0 boot") auto
  then show ?thesis by (simp add: sleep_verbose_def defaults_def)
qed

text \<open>
  C9. The claim has the wait with feedback last exactly \<open>msec\<close>, as the silent wait
  does. The loop test \<open>sofar + ANIMATION_STEP <= msec\<close> adds in \<open>unsigned int\<close>: for
  \<open>msec = 4294967000\<close> the sum wraps to 204 when \<open>sofar\<close> has reached \<open>msec\<close>, the loop
  goes round once more, and the wait with feedback lasts 8589934296 ms. With \<open>quiet\<close>
  set the same call lasts 4294967000 ms, as \<open>sleep_quiet\<close> does.
\<close>

theorem sleep_verbose_wraps:
  "map_option clock (sleep_verbose long_exposure 4294967000 boot) = Some 8589934296000000
   \<and> map_option clock (sleep_verbose (long_exposure\<lparr>quiet := True\<rparr>) 4294967000 boot)
       = Some 4294967000000000
   \<and> clock (sleep_quiet long_exposure 4294967000 boot) = 4294967000000000"
proof -
  have q: "\<not> quiet long_exposure" by (simp add: long_exposure_def defaults_def)
  from sleep_verbose_wrapped [OF calm_boot q]
  have 1: "map_option clock (sleep_verbose long_exposure 4294967000 boot) = Some 8589934296000000"
    by (auto simp: boot_def)
  have 2: "map_option clock (sleep_verbose (long_exposure\<lparr>quiet := True\<rparr>) 4294967000 boot)
       = Some 4294967000000000"
    using calm_boot by (simp add: sleep_verbose_def sleep_quiet_calm) (simp add: boot_def)
  have 3: "clock (sleep_quiet long_exposure 4294967000 boot) = 4294967000000000"
    using calm_boot by (simp add: sleep_quiet_calm) (simp add: boot_def)
  from 1 2 3 show ?thesis by simp
qed

subsection \<open>The dither command\<close>

text \<open>
  C4. The claim has \<open>dither(level)\<close> send the entry of the table \<open>{1:3, 2:4, 3:5, 4:12,
  5:13}\<close>, so 5 for the level 3. The program indexes the array \<open>{3, 4, 5, 12, 13}\<close> by
  the level itself, not by the level less one: the level 3, which the option \<open>-d\<close>
  accepts, sends 12. One write and one read follow each other as the claim says.
\<close>

theorem dither_3_sends_12:
  "dither_option 3 = Some 3
   \<and> phd_cmd_at 3 = Some 12
   \<and> trace (phd_dither (defaults\<lparr>phd_dither_size := 3\<rparr>) boot)
       = [(0, Guider_write 12), (0, Guider_read)]
   \<and> status (phd_dither (defaults\<lparr>phd_dither_size := 3\<rparr>) boot) = Running"
  by (simp add: dither_option_def phd_dither_def atom_def due_def tick_def phd_cmd_at_def
      phd_cmds_def guider_write_def guider_read_def boot_def emit_def)

text \<open>
  C8. The claim has the lookup stay inside the five entries for every level from 1 to
  5. The option \<open>-d\<close> accepts 5, and \<open>phd_cmds[5]\<close> is one past the last entry: the
  lookup of the model has no value there and nothing is written.
\<close>

theorem dither_5_out_of_bounds:
  "dither_option 5 = Some 5
   \<and> phd_cmd_at 5 = None
   \<and> status (phd_dither (defaults\<lparr>phd_dither_size := 5\<rparr>) boot) = Undefined
   \<and> trace (phd_dither (defaults\<lparr>phd_dither_size := 5\<rparr>) boot) = []"
  by (simp add: dither_option_def phd_dither_def atom_def due_def tick_def phd_cmd_at_def
      phd_cmds_def boot_def)

subsection \<open>An MLU method that does not exist\<close>

text \<open>
  C5. With a method other than 1 and 2, \<open>expose\<close> prints its message and does nothing
  to the control line, and the run goes on to its end. But \<open>main\<close> calls
  \<open>log_exposure\<close> after every \<open>expose\<close>: with a label set, the frame is logged with
  the time stamps as they stand, which are zero since no exposure was ever made.
\<close>

theorem unknown_mlu_is_logged:
  "map_option trace (main unknown_mlu boot)
     = Some [(0, Tiocmset 2), (0, Call_expose 2), (0, Print_unknown_mlu 3),
             (0, Return_expose 2), (0, Log_line ''M31'' 0 0)]
   \<and> map_option status (main unknown_mlu boot) = Some (Exited 0)"
proof -
  define s0 where "s0 = boot\<lparr>mctrl := 2, trace := [(0, Tiocmset 2)]\<rparr>"
  define s1 where "s1 = s0\<lparr>verbose := (1, 1),
     trace := [(0, Tiocmset 2), (0, Call_expose 2), (0, Print_unknown_mlu 3),
               (0, Return_expose 2), (0, Log_line ''M31'' 0 0)]\<rparr>"
  have st: "start unknown_mlu boot = s0"
    by (simp add: s0_def start_def phd_connect_def shutter_release_def set_rts_def rts_bits_def
        TIOCM_RTS_def tiocmset_def atom_def due_def tick_def emit_def unknown_mlu_def
        defaults_def boot_def Let_def)
  have fr: "frame unknown_mlu 1 s0 = Some s1"
    by (simp add: s1_def s0_def frame_def expose_def mark_def log_exposure_def atom_def due_def
        tick_def emit_def unknown_mlu_def defaults_def boot_def Let_def)
  have "frames unknown_mlu 1 s0 = frames unknown_mlu 2 s1"
    by (subst frames.simps) (simp add: fr, simp add: s0_def boot_def unknown_mlu_def defaults_def)
  also have "\<dots> = Some s1"
    by (subst frames.simps)
       (simp add: s1_def s0_def boot_def unknown_mlu_def defaults_def word_le_nat_alt)
  finally have "main unknown_mlu boot = Some (finish unknown_mlu s1)"
    by (simp add: main_def st)
  then show ?thesis
    by (simp add: finish_def phd_disconnect_def s1_def s0_def boot_def)
qed

subsection \<open>The two mirror-lockup protocols\<close>

lemma rts_bits_flip [simp]:
  "rts_bits True (rts_bits False m) = rts_bits True m"
  "rts_bits False (rts_bits True m) = rts_bits False m"
  by (auto simp: rts_bits_def bit_eq_iff bit_simps)

lemma set_rts_calm:
  "calm s \<Longrightarrow> set_rts c on s =
     s\<lparr>mctrl := rts_bits on (mctrl s),
       trace := trace s @ [(clock s, Tiocmset (rts_bits on (mctrl s)))]\<rparr>"
  by (simp add: set_rts_def atom_calm tiocmset_def emit_def)

lemma stamp_diff: "(t + e * 1000000) div 1000 - t div 1000 = e * (1000 :: nat)"
proof -
  have "(t + e * 1000000) div 1000 = t div 1000 + e * 1000"
    using div_mult_self3 [of 1000 t "e * 1000"] by (simp add: mult.assoc)
  then show ?thesis by simp
qed

lemma timed_exposure_calm:
  assumes "calm s" and "quiet c \<or> unat (exp_time c) < 4294967000"
  shows "\<exists>n tr. timed_exposure c s =
      Some (s\<lparr>exp_start := clock s div 1000, exposing := False,
              clock := clock s + unat (exp_time c) * 1000000,
              eintr := drain (unat (exp_time c) * 1000000) (eintr s),
              animation_step := n,
              exp_end := (clock s + unat (exp_time c) * 1000000) div 1000,
              mctrl := rts_bits False (mctrl s),
              trace := tr @ [(clock s + unat (exp_time c) * 1000000,
                              Tiocmset (rts_bits False (mctrl s)))]\<rparr>)
      \<and> hush tr = hush (trace s)"
proof -
  define s2 where "s2 = s\<lparr>exp_start := clock s div 1000, exposing := True\<rparr>"
  have c2: "calm s2" using assms(1) by (simp add: s2_def)
  from sleep_verbose_calm [OF c2 assms(2)]
  obtain n tr where r: "sleep_verbose c (exp_time c) s2 =
             Some ((sleep_quiet c (exp_time c) s2)\<lparr>animation_step := n, trace := tr\<rparr>)"
      "hush tr = hush (trace s2)"
    by blast
  have "timed_exposure c s =
      Some (s\<lparr>exp_start := clock s div 1000, exposing := False,
              clock := clock s + unat (exp_time c) * 1000000,
              eintr := drain (unat (exp_time c) * 1000000) (eintr s),
              animation_step := n,
              exp_end := (clock s + unat (exp_time c) * 1000000) div 1000,
              mctrl := rts_bits False (mctrl s),
              trace := tr @ [(clock s + unat (exp_time c) * 1000000,
                              Tiocmset (rts_bits False (mctrl s)))]\<rparr>)"
    using assms(1) c2
    by (simp add: timed_exposure_def atom_calm gettimeofday_def s2_def [symmetric] r(1)
        sleep_quiet_calm shutter_release_def set_rts_calm)
       (simp add: s2_def)
  moreover have "hush tr = hush (trace s)" using r(2) by (simp add: s2_def)
  ultimately show ?thesis by blast
qed

lemma released_rts_bits [simp]: "rts_bits False m AND TIOCM_RTS = 0"
  by (auto simp: rts_bits_def bit_eq_iff bit_simps)

lemma rts_algebra [simp]:
  "(m OR TIOCM_RTS) AND NOT TIOCM_RTS = m AND NOT TIOCM_RTS"
  "(m AND NOT TIOCM_RTS) OR TIOCM_RTS = m OR TIOCM_RTS"
  "(m AND NOT TIOCM_RTS) AND TIOCM_RTS = 0"
  by (auto simp: bit_eq_iff bit_simps)

lemma seconds_1: "seconds 1 = Some 1000"
  by (simp add: seconds_def)

lemma expose1_calm:
  assumes "calm s" and "mlu_method c = 1" and "quiet c \<or> unat (exp_time c) < 4294967000"
  shows "\<exists>k tr. expose c msec s =
      Some (s\<lparr>clock := clock s + (unat (mlu_delay c) + unat (exp_time c)) * 1000000,
              eintr := drain ((unat (mlu_delay c) + unat (exp_time c)) * 1000000) (eintr s),
              exp_start := (clock s + unat (mlu_delay c) * 1000000) div 1000,
              exposing := False, animation_step := k,
              exp_end := (clock s + (unat (mlu_delay c) + unat (exp_time c)) * 1000000) div 1000,
              mctrl := mctrl s AND NOT TIOCM_RTS, trace := tr\<rparr>)
      \<and> hush tr = hush (trace s) @
         [(clock s, Tiocmset (mctrl s OR TIOCM_RTS)),
          (clock s + (unat (mlu_delay c) + unat (exp_time c)) * 1000000,
             Tiocmset (mctrl s AND NOT TIOCM_RTS))]"
proof -
  define D where "D = unat (mlu_delay c) * 1000000"
  define E where "E = unat (exp_time c) * 1000000"
  define s2 where "s2 = s\<lparr>mctrl := rts_bits True (mctrl s),
       trace := trace s @ [(clock s, Tiocmset (rts_bits True (mctrl s)))],
       clock := clock s + D, eintr := drain D (eintr s)\<rparr>"
  have c2: "calm s2" using assms(1) by (simp add: s2_def)
  have ex: "expose c msec s = timed_exposure c s2"
    using assms(1,2)
    by (simp add: expose_def shutter_fire_def set_rts_calm sleep_quiet_calm s2_def D_def)
  from timed_exposure_calm [OF c2 assms(3)]
  obtain k tr where r: "timed_exposure c s2 =
      Some (s2\<lparr>exp_start := clock s2 div 1000, exposing := False,
              clock := clock s2 + unat (exp_time c) * 1000000,
              eintr := drain (unat (exp_time c) * 1000000) (eintr s2),
              animation_step := k,
              exp_end := (clock s2 + unat (exp_time c) * 1000000) div 1000,
              mctrl := rts_bits False (mctrl s2),
              trace := tr @ [(clock s2 + unat (exp_time c) * 1000000,
                              Tiocmset (rts_bits False (mctrl s2)))]\<rparr>)"
      and h: "hush tr = hush (trace s2)"
    by blast
  have t: "(unat (mlu_delay c) + unat (exp_time c)) * 1000000 = D + E"
    by (simp add: D_def E_def add_mult_distrib)
  show ?thesis
    unfolding ex r t
    using h
    by (intro exI [of _ k] exI [of _ "tr @ [(clock s2 + unat (exp_time c) * 1000000,
                              Tiocmset (rts_bits False (mctrl s2)))]"])
       (simp add: s2_def rts_bits_def D_def [symmetric] E_def [symmetric] add.assoc drain_add)
qed

lemma expose2_calm:
  assumes "calm s" and "mlu_method c = 2" and "quiet c \<or> unat (exp_time c) < 4294967000"
  shows "\<exists>k tr. expose c msec s =
      Some (s\<lparr>clock := clock s + (unat (shut_min_pulse c) + unat (mlu_delay c)
                                      + unat (exp_time c)) * 1000000,
              eintr := drain ((unat (shut_min_pulse c) + unat (mlu_delay c)
                                      + unat (exp_time c)) * 1000000) (eintr s),
              exp_start := (clock s + (unat (shut_min_pulse c) + unat (mlu_delay c)) * 1000000)
                             div 1000,
              exposing := False, animation_step := k,
              exp_end := (clock s + (unat (shut_min_pulse c) + unat (mlu_delay c)
                                      + unat (exp_time c)) * 1000000) div 1000,
              mctrl := mctrl s AND NOT TIOCM_RTS, trace := tr\<rparr>)
      \<and> hush tr = hush (trace s) @
         [(clock s, Tiocmset (mctrl s OR TIOCM_RTS)),
          (clock s + unat (shut_min_pulse c) * 1000000, Tiocmset (mctrl s AND NOT TIOCM_RTS)),
          (clock s + (unat (shut_min_pulse c) + unat (mlu_delay c)) * 1000000,
             Tiocmset (mctrl s OR TIOCM_RTS)),
          (clock s + (unat (shut_min_pulse c) + unat (mlu_delay c) + unat (exp_time c)) * 1000000,
             Tiocmset (mctrl s AND NOT TIOCM_RTS))]"
proof -
  define P where "P = unat (shut_min_pulse c) * 1000000"
  define D where "D = unat (mlu_delay c) * 1000000"
  define E where "E = unat (exp_time c) * 1000000"
  define s5 where "s5 = s\<lparr>clock := clock s + (P + D), eintr := drain (P + D) (eintr s),
       mctrl := rts_bits True (mctrl s),
       trace := trace s @ [(clock s, Tiocmset (rts_bits True (mctrl s))),
                           (clock s + P, Tiocmset (rts_bits False (mctrl s))),
                           (clock s + (P + D), Tiocmset (rts_bits True (mctrl s)))]\<rparr>"
  have c5: "calm s5" using assms(1) by (simp add: s5_def)
  have "mlu_method c \<noteq> 1" using assms(2) by simp
  then have ex: "expose c msec s = timed_exposure c s5"
    using assms(1,2)
    by (simp add: expose_def shutter_fire_def shutter_release_def set_rts_calm sleep_quiet_calm
        s5_def P_def D_def drain_add add.assoc)
  from timed_exposure_calm [OF c5 assms(3)]
  obtain k tr where r: "timed_exposure c s5 =
      Some (s5\<lparr>exp_start := clock s5 div 1000, exposing := False,
              clock := clock s5 + unat (exp_time c) * 1000000,
              eintr := drain (unat (exp_time c) * 1000000) (eintr s5),
              animation_step := k,
              exp_end := (clock s5 + unat (exp_time c) * 1000000) div 1000,
              mctrl := rts_bits False (mctrl s5),
              trace := tr @ [(clock s5 + unat (exp_time c) * 1000000,
                              Tiocmset (rts_bits False (mctrl s5)))]\<rparr>)"
      and h: "hush tr = hush (trace s5)"
    by blast
  have t: "(unat (shut_min_pulse c) + unat (mlu_delay c)) * 1000000 = P + D"
     "(unat (shut_min_pulse c) + unat (mlu_delay c) + unat (exp_time c)) * 1000000 = P + D + E"
    by (simp_all add: P_def D_def E_def add_mult_distrib)
  show ?thesis
    unfolding ex r t
    using h
    by (intro exI [of _ k] exI [of _ "tr @ [(clock s5 + unat (exp_time c) * 1000000,
                              Tiocmset (rts_bits False (mctrl s5)))]"])
       (simp add: s5_def rts_bits_def P_def [symmetric] D_def [symmetric] E_def [symmetric]
          add.assoc drain_add)
qed

text \<open>
  With the timed wait as long as the exposure time (\<open>quiet\<close> set, or an exposure time
  below 4294967000 ms), an undisturbed \<open>expose\<close> keeps the protocol of its method.
  Method 1: RTS is raised at once and cleared \<open>mlu_delay + exp_time\<close> later, with nothing in between; the
  stamps span \<open>exp_time\<close>. Method 2: RTS is raised at once, cleared \<open>shut_min_pulse\<close>
  later, raised again after a further \<open>mlu_delay\<close> and cleared after a further
  \<open>exp_time\<close>; the stamps span \<open>exp_time\<close>.
\<close>

lemma mlu1_one_pulse_bounded:
  assumes "calm s" and "mlu_method c = 1" and "quiet c \<or> unat (exp_time c) < 4294967000"
  shows "\<exists>s'. expose c msec s = Some s' \<and> calm s'
    \<and> hush (trace s') = hush (trace s) @
         [(clock s, Tiocmset (mctrl s OR TIOCM_RTS)),
          (clock s + (unat (mlu_delay c) + unat (exp_time c)) * 1000000,
             Tiocmset (mctrl s AND NOT TIOCM_RTS))]
    \<and> exp_start s' = (clock s + unat (mlu_delay c) * 1000000) div 1000
    \<and> exp_end s' = (clock s + (unat (mlu_delay c) + unat (exp_time c)) * 1000000) div 1000
    \<and> exp_end s' - exp_start s' = unat (exp_time c) * 1000
    \<and> released s' \<and> \<not> exposing s'"
proof -
  note b = assms(3)
  from expose1_calm [OF assms(1,2) b, of msec] obtain k tr where
    r: "expose c msec s =
      Some (s\<lparr>clock := clock s + (unat (mlu_delay c) + unat (exp_time c)) * 1000000,
              eintr := drain ((unat (mlu_delay c) + unat (exp_time c)) * 1000000) (eintr s),
              exp_start := (clock s + unat (mlu_delay c) * 1000000) div 1000,
              exposing := False, animation_step := k,
              exp_end := (clock s + (unat (mlu_delay c) + unat (exp_time c)) * 1000000) div 1000,
              mctrl := mctrl s AND NOT TIOCM_RTS, trace := tr\<rparr>)"
    and h: "hush tr = hush (trace s) @
         [(clock s, Tiocmset (mctrl s OR TIOCM_RTS)),
          (clock s + (unat (mlu_delay c) + unat (exp_time c)) * 1000000,
             Tiocmset (mctrl s AND NOT TIOCM_RTS))]"
    by blast
  have d: "(clock s + (unat (mlu_delay c) + unat (exp_time c)) * 1000000) div 1000
      - (clock s + unat (mlu_delay c) * 1000000) div 1000 = unat (exp_time c) * 1000"
    using stamp_diff [of "clock s + unat (mlu_delay c) * 1000000" "unat (exp_time c)"]
    by (simp add: add_mult_distrib add.assoc)
  show ?thesis
    unfolding r using assms(1) h d by (simp add: released_def)
qed

lemma mlu2_two_pulses_bounded:
  assumes "calm s" and "mlu_method c = 2" and "quiet c \<or> unat (exp_time c) < 4294967000"
  shows "\<exists>s'. expose c msec s = Some s' \<and> calm s'
    \<and> hush (trace s') = hush (trace s) @
         [(clock s, Tiocmset (mctrl s OR TIOCM_RTS)),
          (clock s + unat (shut_min_pulse c) * 1000000, Tiocmset (mctrl s AND NOT TIOCM_RTS)),
          (clock s + (unat (shut_min_pulse c) + unat (mlu_delay c)) * 1000000,
             Tiocmset (mctrl s OR TIOCM_RTS)),
          (clock s + (unat (shut_min_pulse c) + unat (mlu_delay c) + unat (exp_time c)) * 1000000,
             Tiocmset (mctrl s AND NOT TIOCM_RTS))]
    \<and> exp_start s' = (clock s + (unat (shut_min_pulse c) + unat (mlu_delay c)) * 1000000) div 1000
    \<and> exp_end s' = (clock s + (unat (shut_min_pulse c) + unat (mlu_delay c)
                        + unat (exp_time c)) * 1000000) div 1000
    \<and> exp_end s' - exp_start s' = unat (exp_time c) * 1000
    \<and> released s' \<and> \<not> exposing s'"
proof -
  note b = assms(3)
  from expose2_calm [OF assms(1,2) b, of msec] obtain k tr where
    r: "expose c msec s =
      Some (s\<lparr>clock := clock s + (unat (shut_min_pulse c) + unat (mlu_delay c)
                                      + unat (exp_time c)) * 1000000,
              eintr := drain ((unat (shut_min_pulse c) + unat (mlu_delay c)
                                      + unat (exp_time c)) * 1000000) (eintr s),
              exp_start := (clock s + (unat (shut_min_pulse c) + unat (mlu_delay c)) * 1000000)
                             div 1000,
              exposing := False, animation_step := k,
              exp_end := (clock s + (unat (shut_min_pulse c) + unat (mlu_delay c)
                                      + unat (exp_time c)) * 1000000) div 1000,
              mctrl := mctrl s AND NOT TIOCM_RTS, trace := tr\<rparr>)"
    and h: "hush tr = hush (trace s) @
         [(clock s, Tiocmset (mctrl s OR TIOCM_RTS)),
          (clock s + unat (shut_min_pulse c) * 1000000, Tiocmset (mctrl s AND NOT TIOCM_RTS)),
          (clock s + (unat (shut_min_pulse c) + unat (mlu_delay c)) * 1000000,
             Tiocmset (mctrl s OR TIOCM_RTS)),
          (clock s + (unat (shut_min_pulse c) + unat (mlu_delay c) + unat (exp_time c)) * 1000000,
             Tiocmset (mctrl s AND NOT TIOCM_RTS))]"
    by blast
  have d: "(clock s + (unat (shut_min_pulse c) + unat (mlu_delay c) + unat (exp_time c)) * 1000000)
        div 1000
      - (clock s + (unat (shut_min_pulse c) + unat (mlu_delay c)) * 1000000) div 1000
      = unat (exp_time c) * 1000"
    using stamp_diff [of "clock s + (unat (shut_min_pulse c) + unat (mlu_delay c)) * 1000000"
        "unat (exp_time c)"]
    by (simp add: add_mult_distrib add.assoc)
  show ?thesis
    unfolding r using assms(1) h d by (simp add: released_def)
qed

text \<open>The same with the timed wait lasting \<open>W\<close> nanoseconds, whatever \<open>W\<close> is.\<close>

lemma timed_exposure_waits:
  assumes "calm s"
    and w: "\<And>s0. calm s0 \<Longrightarrow> \<exists>n tr. sleep_verbose c (exp_time c) s0 =
              Some (s0\<lparr>clock := clock s0 + W, eintr := drain W (eintr s0),
                      animation_step := n, trace := tr\<rparr>)
            \<and> hush tr = hush (trace s0)"
  shows "\<exists>n tr. timed_exposure c s =
      Some (s\<lparr>exp_start := clock s div 1000, exposing := False,
              clock := clock s + W, eintr := drain W (eintr s),
              animation_step := n,
              exp_end := (clock s + W) div 1000,
              mctrl := rts_bits False (mctrl s),
              trace := tr @ [(clock s + W, Tiocmset (rts_bits False (mctrl s)))]\<rparr>)
      \<and> hush tr = hush (trace s)"
proof -
  define s2 where "s2 = s\<lparr>exp_start := clock s div 1000, exposing := True\<rparr>"
  have c2: "calm s2" using assms(1) by (simp add: s2_def)
  from w [OF c2]
  obtain n tr where r: "sleep_verbose c (exp_time c) s2 =
             Some (s2\<lparr>clock := clock s2 + W, eintr := drain W (eintr s2),
                      animation_step := n, trace := tr\<rparr>)"
      "hush tr = hush (trace s2)"
    by blast
  have "timed_exposure c s =
      Some (s\<lparr>exp_start := clock s div 1000, exposing := False,
              clock := clock s + W, eintr := drain W (eintr s),
              animation_step := n,
              exp_end := (clock s + W) div 1000,
              mctrl := rts_bits False (mctrl s),
              trace := tr @ [(clock s + W, Tiocmset (rts_bits False (mctrl s)))]\<rparr>)"
    using assms(1) c2
    by (simp add: timed_exposure_def atom_calm gettimeofday_def s2_def [symmetric] r(1)
        shutter_release_def set_rts_calm)
       (simp add: s2_def)
  moreover have "hush tr = hush (trace s)" using r(2) by (simp add: s2_def)
  ultimately show ?thesis by blast
qed

lemma expose1_waits:
  assumes "calm s" and "mlu_method c = 1"
    and w: "\<And>s0. calm s0 \<Longrightarrow> \<exists>n tr. sleep_verbose c (exp_time c) s0 =
              Some (s0\<lparr>clock := clock s0 + W, eintr := drain W (eintr s0),
                      animation_step := n, trace := tr\<rparr>)
            \<and> hush tr = hush (trace s0)"
  shows "\<exists>k tr. expose c msec s =
      Some (s\<lparr>clock := clock s + (unat (mlu_delay c) * 1000000 + W),
              eintr := drain (unat (mlu_delay c) * 1000000 + W) (eintr s),
              exp_start := (clock s + unat (mlu_delay c) * 1000000) div 1000,
              exposing := False, animation_step := k,
              exp_end := (clock s + (unat (mlu_delay c) * 1000000 + W)) div 1000,
              mctrl := mctrl s AND NOT TIOCM_RTS, trace := tr\<rparr>)
      \<and> hush tr = hush (trace s) @
         [(clock s, Tiocmset (mctrl s OR TIOCM_RTS)),
          (clock s + (unat (mlu_delay c) * 1000000 + W), Tiocmset (mctrl s AND NOT TIOCM_RTS))]"
proof -
  define D where "D = unat (mlu_delay c) * 1000000"
  define s2 where "s2 = s\<lparr>mctrl := rts_bits True (mctrl s),
       trace := trace s @ [(clock s, Tiocmset (rts_bits True (mctrl s)))],
       clock := clock s + D, eintr := drain D (eintr s)\<rparr>"
  have c2: "calm s2" using assms(1) by (simp add: s2_def)
  have ex: "expose c msec s = timed_exposure c s2"
    using assms(1,2)
    by (simp add: expose_def shutter_fire_def set_rts_calm sleep_quiet_calm s2_def D_def)
  from timed_exposure_waits [OF c2 w]
  obtain k tr where r: "timed_exposure c s2 =
      Some (s2\<lparr>exp_start := clock s2 div 1000, exposing := False,
              clock := clock s2 + W, eintr := drain W (eintr s2),
              animation_step := k,
              exp_end := (clock s2 + W) div 1000,
              mctrl := rts_bits False (mctrl s2),
              trace := tr @ [(clock s2 + W, Tiocmset (rts_bits False (mctrl s2)))]\<rparr>)"
      and h: "hush tr = hush (trace s2)"
    by blast
  show ?thesis
    unfolding ex r D_def [symmetric]
    using h
    by (intro exI [of _ k] exI [of _ "tr @ [(clock s2 + W, Tiocmset (rts_bits False (mctrl s2)))]"])
       (simp add: s2_def rts_bits_def add.assoc drain_add)
qed

lemma expose2_waits:
  assumes "calm s" and "mlu_method c = 2"
    and w: "\<And>s0. calm s0 \<Longrightarrow> \<exists>n tr. sleep_verbose c (exp_time c) s0 =
              Some (s0\<lparr>clock := clock s0 + W, eintr := drain W (eintr s0),
                      animation_step := n, trace := tr\<rparr>)
            \<and> hush tr = hush (trace s0)"
  shows "\<exists>k tr. expose c msec s =
      Some (s\<lparr>clock := clock s + (unat (shut_min_pulse c) * 1000000
                                      + (unat (mlu_delay c) * 1000000 + W)),
              eintr := drain (unat (shut_min_pulse c) * 1000000
                                      + (unat (mlu_delay c) * 1000000 + W)) (eintr s),
              exp_start := (clock s + (unat (shut_min_pulse c) * 1000000
                                      + unat (mlu_delay c) * 1000000)) div 1000,
              exposing := False, animation_step := k,
              exp_end := (clock s + (unat (shut_min_pulse c) * 1000000
                                      + (unat (mlu_delay c) * 1000000 + W))) div 1000,
              mctrl := mctrl s AND NOT TIOCM_RTS, trace := tr\<rparr>)
      \<and> hush tr = hush (trace s) @
         [(clock s, Tiocmset (mctrl s OR TIOCM_RTS)),
          (clock s + unat (shut_min_pulse c) * 1000000, Tiocmset (mctrl s AND NOT TIOCM_RTS)),
          (clock s + (unat (shut_min_pulse c) * 1000000 + unat (mlu_delay c) * 1000000),
             Tiocmset (mctrl s OR TIOCM_RTS)),
          (clock s + (unat (shut_min_pulse c) * 1000000 + (unat (mlu_delay c) * 1000000 + W)),
             Tiocmset (mctrl s AND NOT TIOCM_RTS))]"
proof -
  define P where "P = unat (shut_min_pulse c) * 1000000"
  define D where "D = unat (mlu_delay c) * 1000000"
  define s5 where "s5 = s\<lparr>clock := clock s + (P + D), eintr := drain (P + D) (eintr s),
       mctrl := rts_bits True (mctrl s),
       trace := trace s @ [(clock s, Tiocmset (rts_bits True (mctrl s))),
                           (clock s + P, Tiocmset (rts_bits False (mctrl s))),
                           (clock s + (P + D), Tiocmset (rts_bits True (mctrl s)))]\<rparr>"
  have c5: "calm s5" using assms(1) by (simp add: s5_def)
  have "mlu_method c \<noteq> 1" using assms(2) by simp
  then have ex: "expose c msec s = timed_exposure c s5"
    using assms(1,2)
    by (simp add: expose_def shutter_fire_def shutter_release_def set_rts_calm sleep_quiet_calm
        s5_def P_def D_def drain_add add.assoc)
  from timed_exposure_waits [OF c5 w]
  obtain k tr where r: "timed_exposure c s5 =
      Some (s5\<lparr>exp_start := clock s5 div 1000, exposing := False,
              clock := clock s5 + W, eintr := drain W (eintr s5),
              animation_step := k,
              exp_end := (clock s5 + W) div 1000,
              mctrl := rts_bits False (mctrl s5),
              trace := tr @ [(clock s5 + W, Tiocmset (rts_bits False (mctrl s5)))]\<rparr>)"
      and h: "hush tr = hush (trace s5)"
    by blast
  show ?thesis
    unfolding ex r P_def [symmetric] D_def [symmetric]
    using h
    by (intro exI [of _ k] exI [of _ "tr @ [(clock s5 + W, Tiocmset (rts_bits False (mctrl s5)))]"])
       (simp add: s5_def rts_bits_def add.assoc drain_add)
qed

lemma wait_long_exposure:
  assumes "calm s0" and "\<not> quiet c" and "exp_time c = 4294967000"
  shows "\<exists>n tr. sleep_verbose c (exp_time c) s0 =
              Some (s0\<lparr>clock := clock s0 + 8589934296000000,
                      eintr := drain 8589934296000000 (eintr s0),
                      animation_step := n, trace := tr\<rparr>)
            \<and> hush tr = hush (trace s0)"
  unfolding assms(3) using assms(1,2) by (rule sleep_verbose_wrapped)

text \<open>
  C3. The claim has method 1 keep the line engaged for \<open>mlu_delay + exposureDuration\<close>
  and record \<open>exposureDuration\<close>, for every exposure. With \<open>-m 1 -t 4294967\<close>, delay
  2000 ms and exposure time 4294967000 ms, the sum is 4294969000 ms; the line is raised
  at 0 and cleared only at 8589936296 ms, and the stamps (in microseconds) span
  8589934296 ms, since the timed wait with feedback lasts that long.
\<close>

theorem mlu1_long_exposure:
  "map_option deeds (expose (long_exposure\<lparr>mlu_method := 1\<rparr>) 4294967000 boot)
     = Some [(0, Tiocmset 6), (8589936296000000, Tiocmset 2)]
   \<and> map_option exp_start (expose (long_exposure\<lparr>mlu_method := 1\<rparr>) 4294967000 boot)
     = Some 2000000
   \<and> map_option exp_end (expose (long_exposure\<lparr>mlu_method := 1\<rparr>) 4294967000 boot)
     = Some 8589936296000
   \<and> (unat (mlu_delay (long_exposure\<lparr>mlu_method := 1\<rparr>))
        + unat (exp_time (long_exposure\<lparr>mlu_method := 1\<rparr>))) * 1000000 = 4294969000000000"
proof -
  define c where "c = long_exposure\<lparr>mlu_method := 1\<rparr>"
  have m: "mlu_method c = 1" and q: "\<not> quiet c" and e: "exp_time c = 4294967000"
    and d: "unat (mlu_delay c) = 2000"
    by (simp_all add: c_def long_exposure_def defaults_def)
  from expose1_waits [OF calm_boot m wait_long_exposure [OF _ q e], of 4294967000]
  obtain k tr where r: "expose c 4294967000 boot =
      Some (boot\<lparr>clock := clock boot + (unat (mlu_delay c) * 1000000 + 8589934296000000),
              eintr := drain (unat (mlu_delay c) * 1000000 + 8589934296000000) (eintr boot),
              exp_start := (clock boot + unat (mlu_delay c) * 1000000) div 1000,
              exposing := False, animation_step := k,
              exp_end := (clock boot + (unat (mlu_delay c) * 1000000 + 8589934296000000)) div 1000,
              mctrl := mctrl boot AND NOT TIOCM_RTS, trace := tr\<rparr>)"
    and h: "hush tr = hush (trace boot) @
         [(clock boot, Tiocmset (mctrl boot OR TIOCM_RTS)),
          (clock boot + (unat (mlu_delay c) * 1000000 + 8589934296000000),
             Tiocmset (mctrl boot AND NOT TIOCM_RTS))]"
    by blast
  have b: "clock boot = 0" "trace boot = []" "mctrl boot = 6"
    by (simp_all add: boot_def)
  show ?thesis
    unfolding c_def [symmetric] r using h
    by (simp add: deeds_def d e b TIOCM_RTS_def)
qed

text \<open>
  C2. The claim has method 2 engage the line for \<open>exposureDuration\<close> after the pulse and
  the delay, and record \<open>exposureDuration\<close>, for every exposure. With \<open>-t 4294967\<close>,
  pulse 200 ms, delay 2000 ms and exposure time 4294967000 ms, the second engagement
  begins at 2200 ms and ends only at 8589936496 ms, and the stamps (in microseconds) span
  8589934296 ms, since the timed wait with feedback lasts that long.
\<close>

theorem mlu2_long_exposure:
  "map_option deeds (expose long_exposure 4294967000 boot)
     = Some [(0, Tiocmset 6), (200000000, Tiocmset 2), (2200000000, Tiocmset 6),
             (8589936496000000, Tiocmset 2)]
   \<and> map_option exp_start (expose long_exposure 4294967000 boot) = Some 2200000
   \<and> map_option exp_end (expose long_exposure 4294967000 boot) = Some 8589936496000
   \<and> unat (exp_time long_exposure) * 1000000 = 4294967000000000"
proof -
  have m: "mlu_method long_exposure = 2" and q: "\<not> quiet long_exposure"
    and e: "exp_time long_exposure = 4294967000"
    and d: "unat (mlu_delay long_exposure) = 2000" "unat (shut_min_pulse long_exposure) = 200"
    by (simp_all add: long_exposure_def defaults_def)
  from expose2_waits [OF calm_boot m wait_long_exposure [OF _ q e], of 4294967000]
  obtain k tr where r: "expose long_exposure 4294967000 boot =
      Some (boot\<lparr>clock := clock boot + (unat (shut_min_pulse long_exposure) * 1000000
                     + (unat (mlu_delay long_exposure) * 1000000 + 8589934296000000)),
              eintr := drain (unat (shut_min_pulse long_exposure) * 1000000
                     + (unat (mlu_delay long_exposure) * 1000000 + 8589934296000000)) (eintr boot),
              exp_start := (clock boot + (unat (shut_min_pulse long_exposure) * 1000000
                                      + unat (mlu_delay long_exposure) * 1000000)) div 1000,
              exposing := False, animation_step := k,
              exp_end := (clock boot + (unat (shut_min_pulse long_exposure) * 1000000
                     + (unat (mlu_delay long_exposure) * 1000000 + 8589934296000000))) div 1000,
              mctrl := mctrl boot AND NOT TIOCM_RTS, trace := tr\<rparr>)"
    and h: "hush tr = hush (trace boot) @
         [(clock boot, Tiocmset (mctrl boot OR TIOCM_RTS)),
          (clock boot + unat (shut_min_pulse long_exposure) * 1000000,
             Tiocmset (mctrl boot AND NOT TIOCM_RTS)),
          (clock boot + (unat (shut_min_pulse long_exposure) * 1000000
                  + unat (mlu_delay long_exposure) * 1000000),
             Tiocmset (mctrl boot OR TIOCM_RTS)),
          (clock boot + (unat (shut_min_pulse long_exposure) * 1000000
                  + (unat (mlu_delay long_exposure) * 1000000 + 8589934296000000)),
             Tiocmset (mctrl boot AND NOT TIOCM_RTS))]"
    by blast
  have b: "clock boot = 0" "trace boot = []" "mctrl boot = 6"
    by (simp_all add: boot_def)
  show ?thesis
    unfolding r using h
    by (simp add: deeds_def d e b TIOCM_RTS_def)
qed

subsection \<open>The sequencer\<close>

lemma dithers_simps [simp]:
  "dithers [] = 0" "dithers (xs @ ys) = dithers xs + dithers ys"
  "dithers ((t, a) # tr) = (if is_guider_write a then 1 else 0) + dithers tr"
  by (simp_all add: dithers_def)

lemma dithers_hush: "dithers (hush tr) = dithers tr"
  by (induction tr) (auto simp: hush_def dithers_def elim: is_console.elims)

lemma answering_upd [simp]:
  "answering (s\<lparr>clock := k\<rparr>) = answering s" "answering (s\<lparr>eintr := es\<rparr>) = answering s"
  "answering (s\<lparr>trace := tr\<rparr>) = answering s" "answering (s\<lparr>animation_step := n\<rparr>) = answering s"
  "answering (s\<lparr>mctrl := m\<rparr>) = answering s" "answering (s\<lparr>exposing := b\<rparr>) = answering s"
  "answering (s\<lparr>exp_start := x\<rparr>) = answering s" "answering (s\<lparr>exp_end := x\<rparr>) = answering s"
  "answering (s\<lparr>verbose := v\<rparr>) = answering s" "answering (s\<lparr>phd_fd := fd\<rparr>) = answering s"
  "answering (emit a s) = answering s"
  by (simp_all add: answering_def emit_def)

lemma phd_dither_calm:
  assumes "calm s" and "answering s" and "phd_cmd_at (phd_dither_size c) = Some b"
  shows "phd_dither c s = s\<lparr>wr_ret := tl (wr_ret s), rd_ret := tl (rd_ret s),
            trace := trace s @ [(clock s, Guider_write b), (clock s, Guider_read)]\<rparr>"
proof -
  have w: "guider_write b s = s\<lparr>wr_ret := tl (wr_ret s), trace := trace s @ [(clock s, Guider_write b)]\<rparr>"
    using assms(2) by (cases "wr_ret s") (auto simp: guider_write_def answering_def emit_def)
  define s1 where "s1 = guider_write b s"
  have c1: "calm s1" using assms(1) by (simp add: s1_def w calm_def)
  have a1: "list_all (\<lambda>p. fst p = 1) (rd_ret s1)" using assms(2) by (simp add: s1_def w answering_def)
  have r: "guider_read s1 = s1\<lparr>rd_ret := tl (rd_ret s1), trace := trace s1 @ [(clock s1, Guider_read)]\<rparr>"
    using a1 by (cases "rd_ret s1") (auto simp: guider_read_def emit_def)
  have "phd_dither c s = guider_read s1"
    using assms(1,3) c1 by (simp add: phd_dither_def atom_calm s1_def [symmetric])
  then show ?thesis by (simp add: r) (simp add: s1_def w)
qed

lemma expose_calm:
  assumes "calm s" and "quiet c \<or> unat (exp_time c) < 4294967000"
  shows "\<exists>t es x e k y m tr ev. expose c msec s =
      Some (s\<lparr>clock := t, eintr := es, exp_start := x, exposing := e,
              animation_step := k, exp_end := y, mctrl := m, trace := tr\<rparr>)
      \<and> hush tr = hush (trace s) @ ev \<and> dithers ev = 0
      \<and> (released s \<longrightarrow> m AND TIOCM_RTS = 0)"
proof -
  consider "mlu_method c = 1" | "mlu_method c = 2" | "mlu_method c \<noteq> 1" "mlu_method c \<noteq> 2"
    by blast
  then show ?thesis
  proof cases
    case 1
    from expose1_calm [OF assms(1) 1 assms(2), of msec] show ?thesis
      by (elim exE conjE) (intro exI conjI, assumption, assumption, simp_all)
  next
    case 2
    from expose2_calm [OF assms(1) 2 assms(2), of msec] show ?thesis
      by (elim exE conjE) (intro exI conjI, assumption, assumption, simp_all)
  next
    case 3
    have "expose c msec s = Some (s\<lparr>clock := clock s, eintr := eintr s, exp_start := exp_start s,
        exposing := exposing s, animation_step := animation_step s, exp_end := exp_end s,
        mctrl := mctrl s, trace := trace s @ [(clock s, Print_unknown_mlu (mlu_method c))]\<rparr>)"
      using 3 assms(1) by (simp add: expose_def atom_calm emit_def)
    moreover have "hush (trace s @ [(clock s, Print_unknown_mlu (mlu_method c))]) = hush (trace s) @ []"
      by simp
    ultimately show ?thesis
      by (intro exI conjI) (assumption, assumption, simp_all add: released_def)
  qed
qed

lemma list_all_tl: "list_all P xs \<Longrightarrow> list_all P (tl xs)"
  by (cases xs) simp_all

lemma mark_calm: "calm s \<Longrightarrow> mark f s = s\<lparr>trace := trace s @ [(clock s, f (mctrl s))]\<rparr>"
  by (simp add: mark_def calm_def emit_def)

lemma frame_calm:
  assumes "calm s" and "answering s" and "phd_cmd_at (phd_dither_size c) = Some b"
    and "quiet c \<or> unat (exp_time c) < 4294967000"
  shows "\<exists>s' rest. frame c i s = Some s' \<and> calm s' \<and> answering s'
    \<and> (released s \<longrightarrow> released s')
    \<and> hush (trace s') = hush (trace s)
         @ (if i \<noteq> 1 \<and> phd_dither_size c \<noteq> 0
            then [(clock s, Guider_write b), (clock s, Guider_read)] else [])
         @ [(clock s + (if i \<noteq> 1 then unat (exp_pause c) * 1000000 else 0),
             Call_expose (mctrl s))]
         @ rest
    \<and> dithers rest = 0 \<and> phd_fd s' = phd_fd s"
proof -
  define s3 where "s3 =
     (let s1 = (if i \<noteq> 1 \<and> phd_dither_size c \<noteq> 0
                then phd_dither c (atom c (emit Print_dithering) s) else s);
          s2 = atom c (\<lambda>s. s\<lparr>verbose := (i, exp_count c)\<rparr>) s1
      in (if i \<noteq> 1 then sleep_quiet c (exp_pause c) s2 else s2))"
  have fr: "frame c i s = (case expose c (exp_time c) (mark Call_expose s3) of
            None \<Rightarrow> None
          | Some s4 \<Rightarrow> Some (atom c (log_exposure c) (mark Return_expose s4)))"
    by (simp add: frame_def s3_def Let_def)
  have c3: "calm s3" and a3: "answering s3" and m3: "mctrl s3 = mctrl s"
    and p3: "phd_fd s3 = phd_fd s"
    and k3: "clock s3 = clock s + (if i \<noteq> 1 then unat (exp_pause c) * 1000000 else 0)"
    and h3: "hush (trace s3) = hush (trace s)
         @ (if i \<noteq> 1 \<and> phd_dither_size c \<noteq> 0
            then [(clock s, Guider_write b), (clock s, Guider_read)] else [])"
    using assms(1,2,3)
    by (simp_all add: s3_def Let_def atom_calm phd_dither_calm sleep_quiet_calm)
       (simp_all add: answering_def list_all_tl emit_def)
  define s3' where "s3' = mark Call_expose s3"
  have s3': "s3' = s3\<lparr>trace := trace s3 @ [(clock s3, Call_expose (mctrl s3))]\<rparr>"
    using c3 by (simp add: s3'_def mark_calm)
  have c3': "calm s3'" using c3 by (simp add: s3')
  from expose_calm [OF c3' assms(4), of "exp_time c"]
  obtain t es x e k y m tr ev where r: "expose c (exp_time c) s3' =
      Some (s3'\<lparr>clock := t, eintr := es, exp_start := x, exposing := e,
              animation_step := k, exp_end := y, mctrl := m, trace := tr\<rparr>)"
     and h: "hush tr = hush (trace s3') @ ev" and d: "dithers ev = 0"
     and rel: "released s3' \<longrightarrow> m AND TIOCM_RTS = 0"
    by blast
  define s4 where "s4 = s3'\<lparr>clock := t, eintr := es, exp_start := x, exposing := e,
              animation_step := k, exp_end := y, mctrl := m, trace := tr\<rparr>"
  have c4: "calm s4" using c3' by (simp add: s4_def)
  define s' where "s' = atom c (log_exposure c) (mark Return_expose s4)"
  have s'eq: "s' = log_exposure c (s4\<lparr>trace := tr @ [(t, Return_expose m)]\<rparr>)"
    using c4 by (simp add: s'_def mark_calm atom_calm) (simp add: s4_def)
  have f: "frame c i s = Some s'"
    by (simp add: fr s3'_def [symmetric] r s4_def [symmetric] s'_def)
  define rest where "rest = ev @ hush (drop (length tr) (trace s'))"
  have tr': "trace s' = tr @ drop (length tr) (trace s')"
    by (simp add: s'eq log_exposure_def emit_def s4_def split: option.splits)
  have dl: "dithers (drop (length tr) (trace s')) = 0"
    by (simp add: s'eq log_exposure_def emit_def s4_def split: option.splits)
  have 1: "calm s'" using c4 by (simp add: s'eq log_exposure_def split: option.splits)
  have 2: "answering s'" using a3
    by (simp add: s'eq log_exposure_def s4_def s3' split: option.splits)
  have 3: "released s \<longrightarrow> released s'"
    using rel m3 by (simp add: released_def s'eq s4_def s3')
  have "hush (trace s') = hush tr @ hush (drop (length tr) (trace s'))"
    by (subst tr') simp
  then have 4: "hush (trace s') = hush (trace s)
         @ (if i \<noteq> 1 \<and> phd_dither_size c \<noteq> 0
            then [(clock s, Guider_write b), (clock s, Guider_read)] else [])
         @ [(clock s + (if i \<noteq> 1 then unat (exp_pause c) * 1000000 else 0),
             Call_expose (mctrl s))]
         @ rest"
    by (simp add: h s3' h3 k3 m3 rest_def)
  have 5: "dithers rest = 0"
    using d dl by (simp add: rest_def dithers_hush)
  have 6: "phd_fd s' = phd_fd s"
    using p3 by (simp add: s'eq s4_def s3')
  from f 1 2 3 4 5 6 show ?thesis by blast
qed

lemma frames_calm:
  assumes "calm s" and "answering s" and "phd_cmd_at (phd_dither_size c) = Some b"
    and "phd_dither_size c \<noteq> 0"
    and "quiet c \<or> unat (exp_time c) < 4294967000"
    and "unat (exp_count c) < 4294967295"
    and "2 \<le> unat i" and "unat i \<le> unat (exp_count c) + 1"
  shows "\<exists>s'. frames c i s = Some s' \<and> calm s' \<and> answering s'
    \<and> dithers (trace s') = dithers (trace s) + (unat (exp_count c) + 1 - unat i)
    \<and> (released s \<longrightarrow> released s') \<and> phd_fd s' = phd_fd s"
  using assms(1,2,7,8)
proof (induction "unat (exp_count c) + 1 - unat i" arbitrary: i s)
  case 0
  then have "unat i = unat (exp_count c) + 1" by simp
  then have "\<not> i \<le> exp_count c" by (simp add: word_le_nat_alt)
  then have "frames c i s = Some s"
    by (subst frames.simps) simp
  then show ?case using 0 by simp
next
  case (Suc k)
  then have le: "unat i \<le> unat (exp_count c)" by simp
  then have ile: "i \<le> exp_count c" by (simp add: word_le_nat_alt)
  have i1: "i \<noteq> 1" using Suc.prems(3) by auto
  from frame_calm [OF Suc.prems(1,2) assms(3,5), of i]
  obtain s1 rest where f: "frame c i s = Some s1" "calm s1" "answering s1"
    "released s \<longrightarrow> released s1"
    "hush (trace s1) = hush (trace s)
         @ (if i \<noteq> 1 \<and> phd_dither_size c \<noteq> 0
            then [(clock s, Guider_write b), (clock s, Guider_read)] else [])
         @ [(clock s + (if i \<noteq> 1 then unat (exp_pause c) * 1000000 else 0),
             Call_expose (mctrl s))]
         @ rest" "dithers rest = 0" "phd_fd s1 = phd_fd s"
    by blast
  have d1: "dithers (trace s1) = dithers (trace s) + 1"
    using f(5,6) i1 assms(4) dithers_hush [of "trace s1"] by (simp add: dithers_hush)
  have nw: "unat (i + 1) = unat i + 1"
    using le assms(6) by (simp add: unat_word_ariths)
  have "\<exists>s'. frames c (i + 1) s1 = Some s' \<and> calm s' \<and> answering s'
    \<and> dithers (trace s') = dithers (trace s1) + (unat (exp_count c) + 1 - unat (i + 1))
    \<and> (released s1 \<longrightarrow> released s') \<and> phd_fd s' = phd_fd s1"
    using Suc.hyps(2) Suc.prems(3) le f(2,3) by (intro Suc.hyps(1)) (simp_all add: nw)
  then obtain s' where r: "frames c (i + 1) s1 = Some s'" "calm s'" "answering s'"
    "dithers (trace s') = dithers (trace s1) + (unat (exp_count c) + 1 - unat (i + 1))"
    "released s1 \<longrightarrow> released s'" "phd_fd s' = phd_fd s1"
    by blast
  have "frames c i s = Some s'"
    using Suc.prems(1) ile by (subst frames.simps) (simp add: calm_def f(1) r(1))
  moreover have "dithers (trace s') = dithers (trace s) + (unat (exp_count c) + 1 - unat i)"
    using r(4) d1 le by (simp add: nw)
  ultimately show ?case using r(2,3,5,6) f(4,7) by simp
qed

lemma start_calm:
  assumes "calm s" and "connecting s"
  shows "start c s = s\<lparr>mctrl := rts_bits False (mctrl s),
      trace := trace s @ [(clock s, Tiocmset (rts_bits False (mctrl s)))],
      phd_fd := (if phd_dither_size c = 0 then phd_fd s else sock_ret s)\<rparr>"
  using assms
  by (simp add: start_def shutter_release_def set_rts_calm phd_connect_def atom_calm
      connecting_def calm_def Let_def)

lemma frames_forever:
  assumes "frames c i s = Some r"
  shows "\<not> (exp_count c = 4294967295 \<and> calm s \<and> answering s
            \<and> phd_cmd_at (phd_dither_size c) \<noteq> None
            \<and> (quiet c \<or> unat (exp_time c) < 4294967000))"
proof (rule frames.raw_induct
    [where P = "\<lambda>c i s r. \<not> (exp_count c = 4294967295 \<and> calm s \<and> answering s
            \<and> phd_cmd_at (phd_dither_size c) \<noteq> None
            \<and> (quiet c \<or> unat (exp_time c) < 4294967000))", OF _ assms])
  fix fs c i s r
  assume ih: "\<And>c i s r. fs c i s = Some r \<Longrightarrow>
       \<not> (exp_count c = 4294967295 \<and> calm s \<and> answering s
            \<and> phd_cmd_at (phd_dither_size c) \<noteq> None
            \<and> (quiet c \<or> unat (exp_time c) < 4294967000))"
    and eq: "(if status s \<noteq> Running then Some s
      else if i \<le> exp_count c then
        (case frame c i s of
           None \<Rightarrow> None
         | Some s1 \<Rightarrow> fs c (i + 1) s1)
      else Some s) = Some r"
  show "\<not> (exp_count c = 4294967295 \<and> calm s \<and> answering s
            \<and> phd_cmd_at (phd_dither_size c) \<noteq> None
            \<and> (quiet c \<or> unat (exp_time c) < 4294967000))"
  proof
    assume a: "exp_count c = 4294967295 \<and> calm s \<and> answering s
            \<and> phd_cmd_at (phd_dither_size c) \<noteq> None
            \<and> (quiet c \<or> unat (exp_time c) < 4294967000)"
    then obtain b where b: "phd_cmd_at (phd_dither_size c) = Some b" by auto
    from a have m: "exp_count c = - 1" by simp
    from frame_calm [OF _ _ b, of s i] a
    obtain s1 where f: "frame c i s = Some s1" "calm s1" "answering s1"
      by blast
    have "fs c (i + 1) s1 = Some r"
      using eq a f(1) by (simp add: calm_def m)
    from ih [OF this] a f(2,3) show False by simp
  qed
qed

lemma finish_calm:
  "calm s \<Longrightarrow> status (finish c s) = Exited 0 \<and> dithers (trace (finish c s)) = dithers (trace s)
     \<and> mctrl (finish c s) = mctrl s"
  by (simp add: finish_def phd_disconnect_def atom_calm calm_def Let_def)

lemma main_calm:
  assumes "calm s" and "answering s" and "connecting s"
    and "phd_dither_size c \<noteq> 0" and "phd_cmd_at (phd_dither_size c) = Some b"
    and "quiet c \<or> unat (exp_time c) < 4294967000" and "unat (exp_count c) < 4294967295"
  shows "\<exists>s'. main c s = Some s' \<and> status s' = Exited 0
           \<and> dithers (trace s') = dithers (trace s) + (unat (exp_count c) - 1)"
proof -
  define s0 where "s0 = start c s"
  have s0: "s0 = s\<lparr>mctrl := rts_bits False (mctrl s),
      trace := trace s @ [(clock s, Tiocmset (rts_bits False (mctrl s)))],
      phd_fd := (if phd_dither_size c = 0 then phd_fd s else sock_ret s)\<rparr>"
    unfolding s0_def using assms(1,3) by (rule start_calm)
  have c0: "calm s0" and a0: "answering s0" and d0: "dithers (trace s0) = dithers (trace s)"
    using assms(1,2) by (simp_all add: s0)
  have "\<exists>s1. frames c 1 s0 = Some s1 \<and> calm s1
          \<and> dithers (trace s1) = dithers (trace s0) + (unat (exp_count c) - 1)"
  proof (cases "1 \<le> exp_count c")
    case False
    then have "unat (exp_count c) = 0" by (simp add: word_le_nat_alt)
    moreover have "frames c 1 s0 = Some s0"
      using False by (subst frames.simps) simp
    ultimately show ?thesis using c0 by simp
  next
    case True
    then have n1: "1 \<le> unat (exp_count c)" by (simp add: word_le_nat_alt)
    from frame_calm [OF c0 a0 assms(5,6), of 1]
    obtain s1 rest where f: "frame c 1 s0 = Some s1" "calm s1" "answering s1"
      "hush (trace s1) = hush (trace s0) @ [(clock s0, Call_expose (mctrl s0))] @ rest"
      "dithers rest = 0"
      by auto
    have d1: "dithers (trace s1) = dithers (trace s0)"
      using f(4,5) dithers_hush [of "trace s1"] by (simp add: dithers_hush)
    from frames_calm [OF f(2,3) assms(5,4,6,7), of 2] n1
    obtain s2 where r: "frames c 2 s1 = Some s2" "calm s2"
      "dithers (trace s2) = dithers (trace s1) + (unat (exp_count c) + 1 - 2)"
      by auto
    have "frames c 1 s0 = Some s2"
      using c0 True by (subst frames.simps) (simp add: calm_def f(1) r(1))
    then show ?thesis using r(2,3) d1 by simp
  qed
  then obtain s1 where r: "frames c 1 s0 = Some s1" "calm s1"
     "dithers (trace s1) = dithers (trace s0) + (unat (exp_count c) - 1)"
    by blast
  have "main c s = Some (finish c s1)"
    by (simp add: main_def s0_def [symmetric] r(1))
  then show ?thesis using finish_calm [OF r(2), of c] r(3) d0 by simp
qed

text \<open>
  C7, as the claim states it, fails: with the exposure count 4294967295 the test
  \<open>i <= exp_count\<close> is always true, \<open>i++\<close> wraps, and an undisturbed run never ends.
\<close>

theorem frames_never_end: "main forever boot = None"
proof -
  have "connecting boot" by (simp add: connecting_def boot_def)
  note sb = start_calm [OF calm_boot this, of forever]
  have c: "calm (start forever boot)"
    unfolding sb using calm_boot by simp
  have "answering boot" by (simp add: answering_def boot_def)
  then have a: "answering (start forever boot)"
    unfolding sb by simp
  have "frames forever 1 (start forever boot) = None"
    using frames_forever [of forever 1 "start forever boot"] c a
    by (cases "frames forever 1 (start forever boot)")
       (auto simp: forever_def defaults_def phd_cmd_at_def phd_cmds_def)
  then show ?thesis by (simp add: main_def)
qed

text \<open>
  C7, amended. With a dither level from 1 to 4, an exposure count below 4294967295, an
  exposure time below 4294967000 ms or \<open>quiet\<close> set, a guider that connects and
  answers, and no SIGINT: the run ends with status 0 after exactly \<open>exp_count - 1\<close>
  dither commands.
  The first frame begins with the call of \<open>expose\<close>, at once, and writes no dither
  command. Every other frame writes the dither command and reads the answer, then lets
  \<open>exp_pause\<close> pass, then calls \<open>expose\<close>, and writes no further dither command.
\<close>

theorem dither_between_frames:
  assumes "calm s" and "answering s" and "connecting s"
    and "phd_dither_size c \<noteq> 0" and "phd_cmd_at (phd_dither_size c) = Some b"
    and "quiet c \<or> unat (exp_time c) < 4294967000" and "unat (exp_count c) < 4294967295"
  shows "(\<exists>s'. main c s = Some s' \<and> status s' = Exited 0
           \<and> dithers (trace s') = dithers (trace s) + (unat (exp_count c) - 1))
    \<and> (\<exists>s' rest. frame c 1 s = Some s'
           \<and> hush (trace s') = hush (trace s) @ [(clock s, Call_expose (mctrl s))] @ rest
           \<and> dithers rest = 0)
    \<and> (\<forall>i. i \<noteq> 1 \<longrightarrow> (\<exists>s' rest. frame c i s = Some s'
           \<and> hush (trace s') = hush (trace s)
                @ [(clock s, Guider_write b), (clock s, Guider_read),
                   (clock s + unat (exp_pause c) * 1000000, Call_expose (mctrl s))] @ rest
           \<and> dithers rest = 0))"
proof -
  note bd = assms(6)
  have 1: "\<exists>s'. main c s = Some s' \<and> status s' = Exited 0
           \<and> dithers (trace s') = dithers (trace s) + (unat (exp_count c) - 1)"
    using assms(1,2,3,4,5) bd assms(7) by (rule main_calm)
  have 2: "\<exists>s' rest. frame c 1 s = Some s'
           \<and> hush (trace s') = hush (trace s) @ [(clock s, Call_expose (mctrl s))] @ rest
           \<and> dithers rest = 0"
    using frame_calm [OF assms(1,2,5) bd, of 1] by auto
  have 3: "\<exists>s' rest. frame c i s = Some s'
           \<and> hush (trace s') = hush (trace s)
                @ [(clock s, Guider_write b), (clock s, Guider_read),
                   (clock s + unat (exp_pause c) * 1000000, Call_expose (mctrl s))] @ rest
           \<and> dithers rest = 0" if "i \<noteq> 1" for i
    using frame_calm [OF assms(1,2,5) bd, of i] that assms(4) by auto
  from 1 2 3 show ?thesis by blast
qed

theorem dither_between_frames_witness:
  "calm boot \<and> answering boot \<and> connecting boot
   \<and> phd_dither_size three_dithered \<noteq> 0
   \<and> phd_cmd_at (phd_dither_size three_dithered) = Some 4
   \<and> (quiet three_dithered \<or> unat (exp_time three_dithered) < 4294967000)
   \<and> unat (exp_count three_dithered) < 4294967295
   \<and> (\<exists>s'. main three_dithered boot = Some s' \<and> status s' = Exited 0
           \<and> dithers (trace s') = 2)
   \<and> (\<exists>s' rest. frame three_dithered 2 boot = Some s'
           \<and> hush (trace s') = [(0, Guider_write 4), (0, Guider_read),
                   (5000000000, Call_expose 6)] @ rest
           \<and> dithers rest = 0)"
proof -
  have h: "answering boot" "connecting boot" "phd_dither_size three_dithered \<noteq> 0"
    "phd_cmd_at (phd_dither_size three_dithered) = Some 4"
    "quiet three_dithered \<or> unat (exp_time three_dithered) < 4294967000"
    "unat (exp_count three_dithered) < 4294967295"
    by (simp_all add: answering_def connecting_def boot_def three_dithered_def defaults_def
        phd_cmd_at_def phd_cmds_def)
  have t: "trace boot = []" "clock boot = 0" "mctrl boot = 6"
    "unat (exp_pause three_dithered) = 5000" "unat (exp_count three_dithered) = 3"
    by (simp_all add: boot_def three_dithered_def defaults_def)
  have two: "(2 :: u32) \<noteq> 1" by simp
  from dither_between_frames [OF calm_boot h] calm_boot h two show ?thesis
    by (simp add: t numeral_2_eq_2)
qed

subsection \<open>Once the process has left\<close>

lemma atom_gone: "status s \<noteq> Running \<Longrightarrow> atom c f s = s"
  by (simp add: atom_def)

lemma sleep_again_gone: "status s \<noteq> Running \<Longrightarrow> sleep_again c t s = s"
  by (subst sleep_again.simps) simp

lemma sleep_quiet_gone: "status s \<noteq> Running \<Longrightarrow> sleep_quiet c msec s = s"
  by (simp add: sleep_quiet_def sleep_again_gone)

lemma set_rts_gone: "status s \<noteq> Running \<Longrightarrow> set_rts c on s = s"
  by (simp add: set_rts_def atom_gone)

lemma verbose_loop_gone: "status s \<noteq> Running \<Longrightarrow> verbose_loop c msec sofar s = Some (sofar, s)"
  by (subst verbose_loop.simps) simp

lemma sleep_verbose_gone: "status s \<noteq> Running \<Longrightarrow> sleep_verbose c msec s = Some s"
  by (simp add: sleep_verbose_def verbose_loop_gone sleep_quiet_gone atom_gone)

lemma timed_exposure_gone: "status s \<noteq> Running \<Longrightarrow> timed_exposure c s = Some s"
  by (simp add: timed_exposure_def sleep_verbose_gone atom_gone shutter_release_def set_rts_gone)

lemma expose_gone: "status s \<noteq> Running \<Longrightarrow> expose c msec s = Some s"
  by (simp add: expose_def timed_exposure_gone atom_gone shutter_release_def shutter_fire_def
      set_rts_gone sleep_quiet_gone)

lemma phd_dither_gone: "status s \<noteq> Running \<Longrightarrow> phd_dither c s = s"
  by (simp add: phd_dither_def atom_gone)

lemma frame_gone: "status s \<noteq> Running \<Longrightarrow> frame c i s = Some s"
  by (simp add: frame_def phd_dither_gone atom_gone sleep_quiet_gone mark_def expose_gone)



subsection \<open>Steps that leave the exposure record alone\<close>

lemma untouched_refl: "status s = Running \<Longrightarrow> untouched s s"
  by (simp add: untouched_def)

lemma untouched_trans:
  assumes "untouched s s1" and "untouched s1 s2"
  shows "untouched s s2"
proof -
  define d1 where "d1 = drop (length (trace s)) (trace s1)"
  define d2 where "d2 = drop (length (trace s1)) (trace s2)"
  have t1: "trace s1 = trace s @ d1" using assms(1) by (simp add: untouched_def d1_def)
  have t2: "trace s2 = trace s1 @ d2" using assms(2) by (simp add: untouched_def d2_def)
  have t: "trace s2 = trace s @ (d1 @ d2)" by (simp add: t1 t2)
  have d: "drop (length (trace s)) (trace s2) = d1 @ d2" by (simp add: t)
  have a: "list_all (\<lambda>e. is_line_or_console (snd e)) (d1 @ d2)"
    using assms by (simp add: untouched_def d1_def d2_def)
  have "trace s2 = trace s @ drop (length (trace s)) (trace s2)"
    unfolding d by (rule t)
  moreover have "list_all (\<lambda>e. is_line_or_console (snd e)) (drop (length (trace s)) (trace s2))"
    unfolding d by (rule a)
  moreover have "status s2 = Running" "exposing s2 = exposing s" "exp_start s2 = exp_start s"
    "exp_end s2 = exp_end s" "phd_fd s2 = phd_fd s"
    "mctrl s2 AND NOT TIOCM_RTS = mctrl s AND NOT TIOCM_RTS"
    using assms by (simp_all add: untouched_def)
  ultimately show ?thesis by (simp add: untouched_def)
qed

lemma untouched_sigint [simp]: "untouched (s\<lparr>sigint := x\<rparr>) s1 = untouched s s1"
  by (simp add: untouched_def)

lemma outcome_untouched: "untouched s s' \<Longrightarrow> outcome c s s'"
  by (simp add: outcome_def)

lemma outcome_cut: "untouched s si \<Longrightarrow> outcome c s (exit_cleanup c si)"
  unfolding outcome_def by (intro disjI2 exI [of _ si]) simp

lemma outcome_trans:
  assumes "outcome c s s1"
    and "status s1 = Running \<Longrightarrow> outcome c s1 s2"
    and "status s1 \<noteq> Running \<Longrightarrow> s2 = s1"
  shows "outcome c s s2"
proof (cases "status s1 = Running")
  case True
  have "status (exit_cleanup c si) \<noteq> Running" for si by simp
  with assms(1) True have p: "untouched s s1"
    unfolding outcome_def by (metis)
  from assms(2) [OF True]
  consider "untouched s1 s2" | si where "untouched s1 si" "s2 = exit_cleanup c si"
    unfolding outcome_def by blast
  then show ?thesis
  proof cases
    case 1
    then show ?thesis using untouched_trans [OF p] by (intro outcome_untouched)
  next
    case 2
    then show ?thesis using untouched_trans [OF p] by (simp add: outcome_cut)
  qed
next
  case False
  with assms(1,3) show ?thesis by simp
qed

lemma outcome_atom:
  assumes "status s = Running"
    and "\<And>s0. status s0 = Running \<Longrightarrow> untouched s0 (f s0)"
  shows "outcome c s (atom c f s)"
proof (cases "due s")
  case True
  have "untouched s (s\<lparr>sigint := None\<rparr>)" using assms(1) by (simp add: untouched_def)
  then have "outcome c s (exit_cleanup c (s\<lparr>sigint := None\<rparr>))" by (rule outcome_cut)
  then show ?thesis using True assms(1) by (simp add: atom_def)
next
  case False
  have "untouched (s\<lparr>sigint := tick (sigint s)\<rparr>) (f (s\<lparr>sigint := tick (sigint s)\<rparr>))"
    using assms(1) by (intro assms(2)) simp
  then have "outcome c s (f (s\<lparr>sigint := tick (sigint s)\<rparr>))"
    by (intro outcome_untouched) simp
  then show ?thesis using False assms(1) by (simp add: atom_def)
qed

lemma outcome_sleep_again:
  "status s = Running \<Longrightarrow> outcome c s (sleep_again c t s)"
proof (induction c t s rule: sleep_again.induct)
  case (1 c t s)
  show ?case
  proof (cases "due s")
    case True
    have "untouched s (s\<lparr>clock := clock s + min (arrival s) t, sigint := None\<rparr>)"
      using 1(2) by (simp add: untouched_def)
    then have "outcome c s (exit_cleanup c (s\<lparr>clock := clock s + min (arrival s) t, sigint := None\<rparr>))"
      by (rule outcome_cut)
    moreover have "sleep_again c t s =
        exit_cleanup c (s\<lparr>clock := clock s + min (arrival s) t, sigint := None\<rparr>)"
      using True 1(2) by (subst sleep_again.simps) simp
    ultimately show ?thesis by simp
  next
    case False
    obtain s1 r where n: "nanosleep t (s\<lparr>sigint := tick (sigint s)\<rparr>) = (s1, r)"
      by (cases "nanosleep t (s\<lparr>sigint := tick (sigint s)\<rparr>)")
    have p: "untouched s s1"
      using n 1(2) by (auto simp: nanosleep_def untouched_def split: list.splits if_splits)
    show ?thesis
    proof (cases r)
      case None
      then have "sleep_again c t s = s1"
        using False 1(2) n by (subst sleep_again.simps) simp
      then show ?thesis using p by (simp add: outcome_untouched)
    next
      case (Some rem)
      then have e: "sleep_again c t s = sleep_again c rem s1"
        using False 1(2) n by (subst sleep_again.simps) simp
      have r1: "status s1 = Running" using p by (simp add: untouched_def)
      have "outcome c s1 (sleep_again c rem s1)"
        using 1(2) False n Some r1 by (intro 1(1)) simp_all
      then show ?thesis
        unfolding e by (intro outcome_trans [OF outcome_untouched [OF p]]) (simp_all add: r1)
    qed
  qed
qed

lemma outcome_sleep_quiet: "status s = Running \<Longrightarrow> outcome c s (sleep_quiet c msec s)"
  by (simp add: sleep_quiet_def outcome_sleep_again)

lemma outcome_set_rts: "status s = Running \<Longrightarrow> outcome c s (set_rts c on s)"
proof -
  assume r: "status s = Running"
  define s1 where "s1 = atom c (\<lambda>s. s) s"
  have o1: "outcome c s s1"
    unfolding s1_def using r by (intro outcome_atom) (simp_all add: untouched_refl)
  have e: "set_rts c on s = atom c (tiocmset (rts_bits on (mctrl s1))) s1"
    by (simp add: set_rts_def s1_def Let_def)
  show ?thesis
    unfolding e
  proof (rule outcome_trans [OF o1])
    assume r1: "status s1 = Running"
    show "outcome c s1 (atom c (tiocmset (rts_bits on (mctrl s1))) s1)"
    proof (cases "due s1")
      case True
      have "untouched s1 (s1\<lparr>sigint := None\<rparr>)" using r1 by (simp add: untouched_def)
      then have "outcome c s1 (exit_cleanup c (s1\<lparr>sigint := None\<rparr>))" by (rule outcome_cut)
      then show ?thesis using True r1 by (simp add: atom_def)
    next
      case False
      have "untouched s1 (tiocmset (rts_bits on (mctrl s1)) (s1\<lparr>sigint := tick (sigint s1)\<rparr>))"
        using r1 by (simp add: untouched_def tiocmset_def emit_def rts_bits_other)
      then show ?thesis using False r1 by (simp add: atom_def outcome_untouched)
    qed
  next
    assume "status s1 \<noteq> Running"
    then show "atom c (tiocmset (rts_bits on (mctrl s1))) s1 = s1" by (rule atom_gone)
  qed
qed

lemma outcome_verbose_loop_aux:
  assumes "verbose_loop c msec sofar s = Some r"
  shows "(status s = Running \<longrightarrow> outcome c s (snd r)) \<and> (status s \<noteq> Running \<longrightarrow> snd r = s)"
proof (rule verbose_loop.raw_induct
    [where P = "\<lambda>c msec sofar s r. (status s = Running \<longrightarrow> outcome c s (snd r))
                   \<and> (status s \<noteq> Running \<longrightarrow> snd r = s)", OF _ assms])
  fix vl c msec sofar s r
  assume ih: "\<And>c msec sofar s r. vl c msec sofar s = Some r \<Longrightarrow>
       (status s = Running \<longrightarrow> outcome c s (snd r)) \<and> (status s \<noteq> Running \<longrightarrow> snd r = s)"
    and eq: "(if status s \<noteq> Running then Some (sofar, s)
      else if sofar + ANIMATION_STEP \<le> msec then
        (let s1 = atom c (\<lambda>s. emit (Print_progress (verbose s) (100 * sofar div msec)
                                      (animation ! animation_step s))
                                (s\<lparr>animation_step := animation_step s + 1\<rparr>)) s;
             s2 = atom c (\<lambda>s. s\<lparr>animation_step := animation_step s mod ANIMATION_LEN\<rparr>) s1;
             s3 = sleep_quiet c ANIMATION_STEP s2
         in vl c msec (sofar + ANIMATION_STEP) s3)
      else Some (sofar, s)) = Some r"
  show "(status s = Running \<longrightarrow> outcome c s (snd r)) \<and> (status s \<noteq> Running \<longrightarrow> snd r = s)"
  proof (cases "status s = Running")
    case False
    with eq show ?thesis by auto
  next
    case True
    show ?thesis
    proof (cases "sofar + ANIMATION_STEP \<le> msec")
      case False
      with eq True have "r = (sofar, s)" by simp
      then show ?thesis using True by (simp add: outcome_untouched untouched_refl)
    next
      case le: True
      define s1 where "s1 = atom c (\<lambda>s. emit (Print_progress (verbose s) (100 * sofar div msec)
                                      (animation ! animation_step s))
                                (s\<lparr>animation_step := animation_step s + 1\<rparr>)) s"
      define s2 where "s2 = atom c (\<lambda>s. s\<lparr>animation_step := animation_step s mod ANIMATION_LEN\<rparr>) s1"
      define s3 where "s3 = sleep_quiet c ANIMATION_STEP s2"
      have v: "vl c msec (sofar + ANIMATION_STEP) s3 = Some r"
        using eq True le by (simp add: s1_def s2_def s3_def Let_def)
      have o1: "outcome c s s1"
        unfolding s1_def using True
        by (intro outcome_atom) (simp_all add: untouched_def emit_def)
      have o2: "outcome c s s2"
        unfolding s2_def
        by (rule outcome_trans [OF o1])
           (intro outcome_atom, simp_all add: untouched_def atom_gone)
      have o3: "outcome c s s3"
        unfolding s3_def
        by (rule outcome_trans [OF o2]) (simp_all add: outcome_sleep_quiet sleep_quiet_gone)
      have "outcome c s (snd r)"
        by (rule outcome_trans [OF o3]) (use ih [OF v] in simp_all)
      then show ?thesis using True by simp
    qed
  qed
qed

lemma outcome_sleep_verbose:
  assumes "sleep_verbose c msec s = Some s'" and "status s = Running"
  shows "outcome c s s'"
proof (cases "quiet c")
  case True
  with assms show ?thesis by (auto simp: sleep_verbose_def outcome_sleep_quiet)
next
  case False
  with assms(1) obtain sofar s1 where v: "verbose_loop c msec 0 s = Some (sofar, s1)"
    and e: "s' = atom c (\<lambda>s. emit (Print_done (verbose s)) s) (sleep_quiet c (msec - sofar) s1)"
    by (auto simp: sleep_verbose_def Let_def split: option.splits)
  have o1: "outcome c s s1"
    using outcome_verbose_loop_aux [OF v] assms(2) by simp
  have o2: "outcome c s (sleep_quiet c (msec - sofar) s1)"
    by (rule outcome_trans [OF o1]) (simp_all add: outcome_sleep_quiet sleep_quiet_gone)
  show ?thesis
    unfolding e
    by (rule outcome_trans [OF o2])
       (intro outcome_atom, simp_all add: untouched_def emit_def atom_gone)
qed

subsection \<open>The termination signal\<close>

lemma handler_facts:
  "status (exit_cleanup c s) = Exited 0 \<and> released (exit_cleanup c s)
   \<and> phd_fd (exit_cleanup c s) = phd_fd s \<and> exp_start (exit_cleanup c s) = exp_start s
   \<and> exp_end (exit_cleanup c s) = (if exposing s then clock s div 1000 else exp_end s)
   \<and> clock (exit_cleanup c s) = clock s
   \<and> trace (exit_cleanup c s) = trace s @ farewell c (exit_cleanup c s) (exp_start s) (exposing s)"
  by (simp add: farewell_def released_def)
     (simp add: exit_cleanup_def tiocmset_def log_exposure_def emit_def gettimeofday_def
        rts_bits_def Let_def split: option.splits)

lemma cut_facts:
  assumes "outcome c s s'" and "status s' \<noteq> Running"
  shows "status s' = Exited 0 \<and> released s' \<and> phd_fd s' = phd_fd s
    \<and> exp_start s' = exp_start s
    \<and> exp_end s' = (if exposing s then clock s' div 1000 else exp_end s)
    \<and> (\<exists>pre. list_all (\<lambda>e. is_line_or_console (snd e)) pre
           \<and> trace s' = trace s @ pre @ farewell c s' (exp_start s) (exposing s))"
proof -
  from assms obtain si where u: "untouched s si" and e: "s' = exit_cleanup c si"
    by (auto simp: outcome_def untouched_def)
  define pre where "pre = drop (length (trace s)) (trace si)"
  have t: "trace si = trace s @ pre" and a: "list_all (\<lambda>e. is_line_or_console (snd e)) pre"
    using u by (simp_all add: untouched_def pre_def)
  have f: "exposing si = exposing s" "exp_start si = exp_start s" "exp_end si = exp_end s"
    "phd_fd si = phd_fd s"
    using u by (simp_all add: untouched_def)
  have "trace s' = trace s @ pre @ farewell c s' (exp_start s) (exposing s)"
    using handler_facts [of c si] by (simp add: e t f)
  with a have "\<exists>pre. list_all (\<lambda>e. is_line_or_console (snd e)) pre
           \<and> trace s' = trace s @ pre @ farewell c s' (exp_start s) (exposing s)"
    by blast
  then show ?thesis
    using handler_facts [of c si] by (simp add: e f)
qed

text \<open>
  What the handler does, wherever it comes in: it takes the place of the step that is
  due, also in the middle of a sleep; it releases the line, leaves with status 0 and
  closes the serial device; it stamps and logs the exposure exactly when \<open>exposing\<close> is
  set, which it is throughout the timed wait and is not during the lockup pulses and
  waits; it does not touch the guider socket.
\<close>

lemma sigint_cleanup:
  assumes "status s = Running"
  shows "(due s \<longrightarrow> atom c f s = exit_cleanup c (s\<lparr>sigint := None\<rparr>)
            \<and> sleep_again c t s
                = exit_cleanup c (s\<lparr>clock := clock s + min (arrival s) t, sigint := None\<rparr>))
    \<and> (status (exit_cleanup c s) = Exited 0 \<and> released (exit_cleanup c s)
        \<and> phd_fd (exit_cleanup c s) = phd_fd s
        \<and> exp_end (exit_cleanup c s) = (if exposing s then clock s div 1000 else exp_end s)
        \<and> trace (exit_cleanup c s)
            = trace s @ farewell c (exit_cleanup c s) (exp_start s) (exposing s))
    \<and> (exposing s \<and> sleep_verbose c msec s = Some s' \<and> status s' \<noteq> Running \<longrightarrow>
          status s' = Exited 0 \<and> released s' \<and> phd_fd s' = phd_fd s
          \<and> exp_start s' = exp_start s \<and> exp_end s' = clock s' div 1000
          \<and> (\<exists>pre. list_all (\<lambda>e. is_line_or_console (snd e)) pre
                \<and> trace s' = trace s @ pre @ farewell c s' (exp_start s) True))
    \<and> (\<not> exposing s \<and> status (sleep_quiet c msec s) \<noteq> Running \<longrightarrow>
          status (sleep_quiet c msec s) = Exited 0 \<and> released (sleep_quiet c msec s)
          \<and> phd_fd (sleep_quiet c msec s) = phd_fd s
          \<and> exp_start (sleep_quiet c msec s) = exp_start s
          \<and> exp_end (sleep_quiet c msec s) = exp_end s
          \<and> (\<exists>pre. list_all (\<lambda>e. is_line_or_console (snd e)) pre
                \<and> trace (sleep_quiet c msec s)
                    = trace s @ pre @ farewell c (sleep_quiet c msec s) (exp_start s) False))
    \<and> (\<not> exposing s \<and> status (set_rts c on s) \<noteq> Running \<longrightarrow>
          status (set_rts c on s) = Exited 0 \<and> released (set_rts c on s)
          \<and> phd_fd (set_rts c on s) = phd_fd s
          \<and> exp_start (set_rts c on s) = exp_start s
          \<and> exp_end (set_rts c on s) = exp_end s
          \<and> (\<exists>pre. list_all (\<lambda>e. is_line_or_console (snd e)) pre
                \<and> trace (set_rts c on s)
                    = trace s @ pre @ farewell c (set_rts c on s) (exp_start s) False))"
proof -
  have 1: "due s \<longrightarrow> atom c f s = exit_cleanup c (s\<lparr>sigint := None\<rparr>)
            \<and> sleep_again c t s
                = exit_cleanup c (s\<lparr>clock := clock s + min (arrival s) t, sigint := None\<rparr>)"
    using assms by (subst sleep_again.simps) (simp add: atom_def)
  have 2: "status (exit_cleanup c s) = Exited 0 \<and> released (exit_cleanup c s)
        \<and> phd_fd (exit_cleanup c s) = phd_fd s
        \<and> exp_end (exit_cleanup c s) = (if exposing s then clock s div 1000 else exp_end s)
        \<and> trace (exit_cleanup c s)
            = trace s @ farewell c (exit_cleanup c s) (exp_start s) (exposing s)"
    using handler_facts [of c s] by simp
  have 3: "exposing s \<and> sleep_verbose c msec s = Some s' \<and> status s' \<noteq> Running \<longrightarrow>
          status s' = Exited 0 \<and> released s' \<and> phd_fd s' = phd_fd s
          \<and> exp_start s' = exp_start s \<and> exp_end s' = clock s' div 1000
          \<and> (\<exists>pre. list_all (\<lambda>e. is_line_or_console (snd e)) pre
                \<and> trace s' = trace s @ pre @ farewell c s' (exp_start s) True)"
  proof (intro impI, elim conjE)
    assume e: "exposing s" and v: "sleep_verbose c msec s = Some s'" and g: "status s' \<noteq> Running"
    from cut_facts [OF outcome_sleep_verbose [OF v assms] g] e show
      "status s' = Exited 0 \<and> released s' \<and> phd_fd s' = phd_fd s
          \<and> exp_start s' = exp_start s \<and> exp_end s' = clock s' div 1000
          \<and> (\<exists>pre. list_all (\<lambda>e. is_line_or_console (snd e)) pre
                \<and> trace s' = trace s @ pre @ farewell c s' (exp_start s) True)"
      by simp
  qed
  have 4: "\<not> exposing s \<and> status (sleep_quiet c msec s) \<noteq> Running \<longrightarrow>
          status (sleep_quiet c msec s) = Exited 0 \<and> released (sleep_quiet c msec s)
          \<and> phd_fd (sleep_quiet c msec s) = phd_fd s
          \<and> exp_start (sleep_quiet c msec s) = exp_start s
          \<and> exp_end (sleep_quiet c msec s) = exp_end s
          \<and> (\<exists>pre. list_all (\<lambda>e. is_line_or_console (snd e)) pre
                \<and> trace (sleep_quiet c msec s)
                    = trace s @ pre @ farewell c (sleep_quiet c msec s) (exp_start s) False)"
  proof (intro impI, elim conjE)
    assume e: "\<not> exposing s" and g: "status (sleep_quiet c msec s) \<noteq> Running"
    from cut_facts [OF outcome_sleep_quiet [OF assms] g] e show
      "status (sleep_quiet c msec s) = Exited 0 \<and> released (sleep_quiet c msec s)
          \<and> phd_fd (sleep_quiet c msec s) = phd_fd s
          \<and> exp_start (sleep_quiet c msec s) = exp_start s
          \<and> exp_end (sleep_quiet c msec s) = exp_end s
          \<and> (\<exists>pre. list_all (\<lambda>e. is_line_or_console (snd e)) pre
                \<and> trace (sleep_quiet c msec s)
                    = trace s @ pre @ farewell c (sleep_quiet c msec s) (exp_start s) False)"
      by simp
  qed
  have 5: "\<not> exposing s \<and> status (set_rts c on s) \<noteq> Running \<longrightarrow>
          status (set_rts c on s) = Exited 0 \<and> released (set_rts c on s)
          \<and> phd_fd (set_rts c on s) = phd_fd s
          \<and> exp_start (set_rts c on s) = exp_start s
          \<and> exp_end (set_rts c on s) = exp_end s
          \<and> (\<exists>pre. list_all (\<lambda>e. is_line_or_console (snd e)) pre
                \<and> trace (set_rts c on s)
                    = trace s @ pre @ farewell c (set_rts c on s) (exp_start s) False)"
  proof (intro impI, elim conjE)
    assume e: "\<not> exposing s" and g: "status (set_rts c on s) \<noteq> Running"
    from cut_facts [OF outcome_set_rts [OF assms] g] e show
      "status (set_rts c on s) = Exited 0 \<and> released (set_rts c on s)
          \<and> phd_fd (set_rts c on s) = phd_fd s
          \<and> exp_start (set_rts c on s) = exp_start s
          \<and> exp_end (set_rts c on s) = exp_end s
          \<and> (\<exists>pre. list_all (\<lambda>e. is_line_or_console (snd e)) pre
                \<and> trace (set_rts c on s)
                    = trace s @ pre @ farewell c (set_rts c on s) (exp_start s) False)"
      by simp
  qed
  from 1 2 3 4 5 show ?thesis by blast
qed


subsection \<open>The line is released\<close>

lemma markers_ok_simps [simp]:
  "markers_ok [] = True" "markers_ok (xs @ ys) = (markers_ok xs \<and> markers_ok ys)"
  "markers_ok ((t, a) # tr) = (marker_ok a \<and> markers_ok tr)"
  by (simp_all add: markers_ok_def)

lemma line_or_console_marker_ok: "is_line_or_console a \<Longrightarrow> marker_ok a"
  by (cases a) simp_all

lemma markers_ok_line_or_console:
  "list_all (\<lambda>e. is_line_or_console (snd e)) tr \<Longrightarrow> markers_ok tr"
  by (induction tr) (auto simp: line_or_console_marker_ok)

lemma markers_ok_farewell [simp]: "markers_ok (farewell c s' b l)"
  by (simp add: farewell_def split: option.splits)

lemma at_rest_guarded: "at_rest s \<Longrightarrow> guarded s"
  by (simp add: at_rest_def guarded_def)

lemma guarded_at_rest: "guarded s \<Longrightarrow> (status s = Running \<Longrightarrow> released s) \<Longrightarrow> at_rest s"
  by (auto simp: at_rest_def guarded_def)

lemma at_rest_exit_cleanup: "markers_ok (trace s) \<Longrightarrow> at_rest (exit_cleanup c s)"
  using handler_facts [of c s] by (simp add: at_rest_def)

lemma at_rest_sigint [simp]: "at_rest (s\<lparr>sigint := x\<rparr>) = at_rest s"
  by (simp add: at_rest_def released_def)

lemma guarded_outcome:
  assumes "guarded s" and "status s = Running" and "outcome c s s'"
  shows "guarded s'"
proof -
  from assms(3) consider "untouched s s'" | si where "untouched s si" "s' = exit_cleanup c si"
    unfolding outcome_def by blast
  then show ?thesis
  proof cases
    case 1
    then have "trace s' = trace s @ drop (length (trace s)) (trace s')"
      and "markers_ok (drop (length (trace s)) (trace s'))" and "status s' = Running"
      by (simp_all add: untouched_def markers_ok_line_or_console)
    then have "markers_ok (trace s')" "status s' = Running"
      using assms(1) by (metis guarded_def markers_ok_simps(2))+
    then show ?thesis by (simp add: guarded_def)
  next
    case 2
    then have "trace si = trace s @ drop (length (trace s)) (trace si)"
      and "markers_ok (drop (length (trace s)) (trace si))"
      by (simp_all add: untouched_def markers_ok_line_or_console)
    then have "markers_ok (trace si)"
      using assms(1) by (metis guarded_def markers_ok_simps(2))
    then show ?thesis unfolding 2(2) by (intro at_rest_guarded at_rest_exit_cleanup)
  qed
qed

lemma guarded_set_rts: "guarded s \<Longrightarrow> guarded (set_rts c on s)"
  by (cases "status s = Running") (auto intro: guarded_outcome outcome_set_rts simp: set_rts_gone)

lemma guarded_sleep_quiet: "guarded s \<Longrightarrow> guarded (sleep_quiet c msec s)"
  by (cases "status s = Running")
     (auto intro: guarded_outcome outcome_sleep_quiet simp: sleep_quiet_gone)

lemma guarded_sleep_verbose:
  "guarded s \<Longrightarrow> sleep_verbose c msec s = Some s' \<Longrightarrow> guarded s'"
  by (cases "status s = Running")
     (auto intro: guarded_outcome outcome_sleep_verbose simp: sleep_verbose_gone)

lemma guarded_atom:
  assumes "guarded s"
    and "\<And>s0. status s0 = Running \<Longrightarrow>
           status (f s0) = Running \<and> (markers_ok (trace s0) \<longrightarrow> markers_ok (trace (f s0)))"
  shows "guarded (atom c f s)"
proof (cases "status s = Running")
  case False
  then show ?thesis using assms(1) by (simp add: atom_gone)
next
  case True
  show ?thesis
  proof (cases "due s")
    case d: True
    have "markers_ok (trace (s\<lparr>sigint := None\<rparr>))" using assms(1) by (simp add: guarded_def)
    then have "at_rest (exit_cleanup c (s\<lparr>sigint := None\<rparr>))" by (rule at_rest_exit_cleanup)
    then show ?thesis using True d by (simp add: atom_def at_rest_guarded)
  next
    case d: False
    have "status (f (s\<lparr>sigint := tick (sigint s)\<rparr>)) = Running
       \<and> markers_ok (trace (f (s\<lparr>sigint := tick (sigint s)\<rparr>)))"
      using assms(2) [of "s\<lparr>sigint := tick (sigint s)\<rparr>"] True assms(1)
      by (simp add: guarded_def)
    then show ?thesis using True d by (simp add: atom_def guarded_def)
  qed
qed

lemma release_at_rest: "guarded s \<Longrightarrow> at_rest (shutter_release c s)"
proof -
  assume g: "guarded s"
  have g': "guarded (set_rts c False s)" using g by (rule guarded_set_rts)
  have "released (set_rts c False s)" if "status (set_rts c False s) = Running"
    using set_rts_Running [OF that] by (simp add: released_def)
  with g' show ?thesis
    unfolding shutter_release_def by (intro guarded_at_rest)
qed

lemma timed_exposure_at_rest:
  assumes "guarded s" and "timed_exposure c s = Some s'"
  shows "at_rest s'"
proof -
  define s2 where "s2 = atom c (\<lambda>s. s\<lparr>exposing := True\<rparr>)
     (atom c (\<lambda>s. s\<lparr>exp_start := gettimeofday s\<rparr>) s)"
  have g2: "guarded s2"
    unfolding s2_def using assms(1) by (intro guarded_atom) simp_all
  from assms(2) obtain s3 where v: "sleep_verbose c (exp_time c) s2 = Some s3"
    and e: "s' = shutter_release c (atom c (\<lambda>s. s\<lparr>exp_end := gettimeofday s\<rparr>)
                (atom c (\<lambda>s. s\<lparr>exposing := False\<rparr>) s3))"
    by (auto simp: timed_exposure_def s2_def Let_def split: option.splits)
  have g3: "guarded s3" using g2 v by (rule guarded_sleep_verbose)
  show ?thesis
    unfolding e using g3 by (intro release_at_rest guarded_atom) simp_all
qed

lemma at_rest_atom:
  assumes "at_rest s" and "\<And>s0. at_rest s0 \<Longrightarrow> at_rest (f s0)"
  shows "at_rest (atom c f s)"
proof -
  have "at_rest (exit_cleanup c (s\<lparr>sigint := None\<rparr>))"
    using assms(1) by (intro at_rest_exit_cleanup) (simp add: at_rest_def)
  moreover have "at_rest (f (s\<lparr>sigint := tick (sigint s)\<rparr>))"
    using assms(1) by (intro assms(2)) simp
  ultimately show ?thesis using assms(1) by (simp add: atom_def)
qed

lemma expose_at_rest:
  assumes "expose c msec s = Some s'"
    and "guarded s \<and> (mlu_method c = 1 \<or> mlu_method c = 2) \<or> at_rest s"
  shows "at_rest s'"
proof -
  have g: "guarded s" using assms(2) by (auto simp: at_rest_guarded)
  consider "mlu_method c = 1" | "mlu_method c \<noteq> 1" "mlu_method c = 2"
    | "mlu_method c \<noteq> 1" "mlu_method c \<noteq> 2"
    by blast
  then show ?thesis
  proof cases
    case 1
    then have "timed_exposure c (sleep_quiet c (mlu_delay c) (shutter_fire c s)) = Some s'"
      using assms(1) by (simp add: expose_def Let_def)
    then show ?thesis
      using g by (intro timed_exposure_at_rest [of _ c])
        (simp_all add: shutter_fire_def guarded_sleep_quiet guarded_set_rts)
  next
    case 2
    then have "timed_exposure c (shutter_fire c (sleep_quiet c (mlu_delay c)
       (shutter_release c (sleep_quiet c (shut_min_pulse c) (shutter_fire c s))))) = Some s'"
      using assms(1) by (simp add: expose_def Let_def)
    then show ?thesis
      using g by (intro timed_exposure_at_rest [of _ c])
        (simp_all add: shutter_fire_def shutter_release_def guarded_sleep_quiet guarded_set_rts)
  next
    case 3
    then have e: "s' = atom c (emit (Print_unknown_mlu (mlu_method c))) s"
      and a: "at_rest s"
      using assms by (auto simp: expose_def)
    show ?thesis
      unfolding e using a by (intro at_rest_atom) (simp_all add: at_rest_def released_def)
  qed
qed

lemma at_rest_sleep_again: "at_rest s \<Longrightarrow> at_rest (sleep_again c t s)"
proof (induction c t s rule: sleep_again.induct)
  case (1 c t s)
  show ?case
  proof (cases "status s = Running")
    case False
    then show ?thesis using 1(2) by (simp add: sleep_again_gone)
  next
    case True
    show ?thesis
    proof (cases "due s")
      case d: True
      have "at_rest (exit_cleanup c (s\<lparr>clock := clock s + min (arrival s) t, sigint := None\<rparr>))"
        using 1(2) by (intro at_rest_exit_cleanup) (simp add: at_rest_def)
      then show ?thesis using True d by (subst sleep_again.simps) simp
    next
      case d: False
      obtain s1 r where n: "nanosleep t (s\<lparr>sigint := tick (sigint s)\<rparr>) = (s1, r)"
        by (cases "nanosleep t (s\<lparr>sigint := tick (sigint s)\<rparr>)")
      have a1: "at_rest s1"
        using n 1(2)
        by (auto simp: nanosleep_def at_rest_def released_def split: list.splits if_splits)
      show ?thesis
      proof (cases r)
        case None
        then have "sleep_again c t s = s1"
          using d True n by (subst sleep_again.simps) simp
        then show ?thesis using a1 by simp
      next
        case (Some rem)
        then have e: "sleep_again c t s = sleep_again c rem s1"
          using d True n by (subst sleep_again.simps) simp
        show ?thesis
          unfolding e using True d n Some a1 by (intro 1(1)) simp_all
      qed
    qed
  qed
qed

lemma at_rest_sleep_quiet: "at_rest s \<Longrightarrow> at_rest (sleep_quiet c msec s)"
  by (simp add: sleep_quiet_def at_rest_sleep_again)

lemma at_rest_fatal: "at_rest s \<Longrightarrow> at_rest (fatal s)"
  by (simp add: at_rest_def fatal_def released_def)

lemma at_rest_phd_dither:
  assumes "at_rest s"
  shows "at_rest (phd_dither c s)"
proof -
  have w: "at_rest (guider_write b s0)" if "at_rest s0" for s0 b
    using that
    by (auto simp: guider_write_def at_rest_def fatal_def released_def emit_def split: list.splits)
  have r: "at_rest (guider_read s0)" if "at_rest s0" for s0
    using that
    by (auto simp: guider_read_def at_rest_def fatal_def released_def emit_def split: list.splits)
  have u: "at_rest (s0\<lparr>status := Undefined\<rparr>)" if "at_rest s0" for s0
    using that by (simp add: at_rest_def released_def)
  have 1: "at_rest (atom c (\<lambda>s. case phd_cmd_at (phd_dither_size c) of
                              None \<Rightarrow> s\<lparr>status := Undefined\<rparr>
                            | Some b \<Rightarrow> guider_write b s) s)"
    using assms
  proof (rule at_rest_atom)
    fix s0 assume "at_rest s0"
    then show "at_rest (case phd_cmd_at (phd_dither_size c) of
                              None \<Rightarrow> s0\<lparr>status := Undefined\<rparr>
                            | Some b \<Rightarrow> guider_write b s0)"
      by (cases "phd_cmd_at (phd_dither_size c)") (simp_all add: w u)
  qed
  show ?thesis
    unfolding phd_dither_def Let_def using 1 by (rule at_rest_atom) (rule r)
qed

lemma at_rest_mark:
  "at_rest s \<Longrightarrow> at_rest (mark Call_expose s) \<and> at_rest (mark Return_expose s)"
  by (simp add: mark_def at_rest_def released_def emit_def)

lemma at_rest_plain_atom:
  assumes "at_rest s"
    and "\<And>s0. status (f s0) = status s0 \<and> mctrl (f s0) = mctrl s0
           \<and> (markers_ok (trace s0) \<longrightarrow> markers_ok (trace (f s0)))"
  shows "at_rest (atom c f s)"
  using assms(1)
proof (rule at_rest_atom)
  fix s0 assume "at_rest s0"
  then show "at_rest (f s0)"
    using assms(2) [of s0] by (simp add: at_rest_def released_def)
qed

lemma at_rest_failing_atom:
  assumes "at_rest s"
  shows "at_rest (atom c (\<lambda>s. if ok s then s else fatal s) s)"
  using assms
proof (rule at_rest_atom)
  fix s0 assume "at_rest s0"
  then show "at_rest (if ok s0 then s0 else fatal s0)"
    by (simp add: at_rest_def released_def fatal_def)
qed

lemma at_rest_frame:
  assumes "at_rest s" and "frame c i s = Some s'"
  shows "at_rest s'"
proof -
  define s1 where "s1 = (if i \<noteq> 1 \<and> phd_dither_size c \<noteq> 0
                then phd_dither c (atom c (emit Print_dithering) s) else s)"
  define s2 where "s2 = atom c (\<lambda>s. s\<lparr>verbose := (i, exp_count c)\<rparr>) s1"
  define s3 where "s3 = (if i \<noteq> 1 then sleep_quiet c (exp_pause c) s2 else s2)"
  have a0: "at_rest (atom c (emit Print_dithering) s)"
    using assms(1) by (rule at_rest_plain_atom) simp
  have a1: "at_rest s1"
    unfolding s1_def using assms(1) a0 by (simp add: at_rest_phd_dither)
  have a2: "at_rest s2"
    unfolding s2_def using a1 by (rule at_rest_plain_atom) simp
  have a3: "at_rest s3"
    unfolding s3_def using a2 by (simp add: at_rest_sleep_quiet)
  have fr: "frame c i s = (case expose c (exp_time c) (mark Call_expose s3) of
            None \<Rightarrow> None
          | Some s4 \<Rightarrow> Some (atom c (log_exposure c) (mark Return_expose s4)))"
    by (simp add: frame_def s1_def s2_def s3_def Let_def)
  from assms(2) obtain s4 where e: "expose c (exp_time c) (mark Call_expose s3) = Some s4"
    and s': "s' = atom c (log_exposure c) (mark Return_expose s4)"
    unfolding fr by (cases "expose c (exp_time c) (mark Call_expose s3)") auto
  have a4: "at_rest s4"
    using a3 at_rest_mark [of s3] by (intro expose_at_rest [OF e]) simp
  have "at_rest (mark Return_expose s4)" using at_rest_mark [OF a4] by simp
  then show ?thesis
    unfolding s' by (rule at_rest_plain_atom) (simp add: log_exposure_def split: option.splits)
qed

lemma at_rest_frames:
  assumes "frames c i s = Some s'"
  shows "at_rest s \<longrightarrow> at_rest s'"
proof (rule frames.raw_induct [where P = "\<lambda>c i s s'. at_rest s \<longrightarrow> at_rest s'", OF _ assms])
  fix fs c i s s'
  assume ih: "\<And>c i s s'. fs c i s = Some s' \<Longrightarrow> at_rest s \<longrightarrow> at_rest s'"
    and eq: "(if status s \<noteq> Running then Some s
      else if i \<le> exp_count c then
        (case frame c i s of
           None \<Rightarrow> None
         | Some s1 \<Rightarrow> fs c (i + 1) s1)
      else Some s) = Some s'"
  show "at_rest s \<longrightarrow> at_rest s'"
  proof
    assume a: "at_rest s"
    show "at_rest s'"
    proof (cases "status s = Running \<and> i \<le> exp_count c")
      case False
      then have "s' = s" using eq by (cases "status s = Running") simp_all
      then show ?thesis using a by simp
    next
      case True
      then have c: "(case frame c i s of None \<Rightarrow> None | Some s1 \<Rightarrow> fs c (i + 1) s1) = Some s'"
        using eq by simp
      then obtain s1 where f: "frame c i s = Some s1" and r: "fs c (i + 1) s1 = Some s'"
        by (cases "frame c i s") simp_all
      have a1: "at_rest s1" using a f by (rule at_rest_frame)
      from ih [OF r] a1 show ?thesis by simp
    qed
  qed
qed

lemma at_rest_start:
  assumes "status s = Running" and "markers_ok (trace s)"
  shows "at_rest (start c s)"
proof -
  have "guarded s" using assms by (simp add: guarded_def)
  then have a: "at_rest (shutter_release c s)" by (rule release_at_rest)
  have 1: "at_rest (atom c (\<lambda>s. if sock_ret s = - 1 then fatal (s\<lparr>phd_fd := sock_ret s\<rparr>)
                               else s\<lparr>phd_fd := sock_ret s\<rparr>) (shutter_release c s))"
    using a
  proof (rule at_rest_atom)
    fix s0 assume "at_rest s0"
    then show "at_rest (if sock_ret s0 = - 1 then fatal (s0\<lparr>phd_fd := sock_ret s0\<rparr>)
                               else s0\<lparr>phd_fd := sock_ret s0\<rparr>)"
      by (simp add: at_rest_def released_def fatal_def)
  qed
  have 2: "at_rest (atom c (\<lambda>s. if resolve_ok s then s else fatal s) s0)" if "at_rest s0" for s0
    using that by (rule at_rest_failing_atom)
  have 3: "at_rest (atom c (\<lambda>s. if connect_ok s then s else fatal s) s0)" if "at_rest s0" for s0
    using that by (rule at_rest_failing_atom)
  show ?thesis
  proof (cases "phd_dither_size c = 0")
    case True
    then show ?thesis using a by (simp add: start_def phd_connect_def)
  next
    case False
    then show ?thesis
      using 3 [OF 2 [OF 1]] by (simp add: start_def phd_connect_def Let_def)
  qed
qed

lemma at_rest_finish: "at_rest s \<Longrightarrow> at_rest (finish c s) \<and> status (finish c s) \<noteq> Running"
proof -
  assume a: "at_rest s"
  have "at_rest (atom c (emit Close_guider) s)"
    using a by (rule at_rest_plain_atom) simp
  then have "at_rest (phd_disconnect c s)"
    unfolding phd_disconnect_def using a by simp
  then show ?thesis
    by (simp add: finish_def Let_def at_rest_def released_def)
qed

lemma markers_ok_member:
  assumes "markers_ok tr"
    and "(t, Call_expose m) \<in> set tr \<or> (t, Return_expose m) \<in> set tr"
  shows "m AND TIOCM_RTS = 0"
proof -
  from assms(1) have a: "\<forall>e\<in>set tr. marker_ok (snd e)"
    by (simp add: markers_ok_def list_all_iff)
  from assms(2) show ?thesis
  proof
    assume "(t, Call_expose m) \<in> set tr"
    with a have "marker_ok (snd (t, Call_expose m))" by blast
    then show ?thesis by simp
  next
    assume "(t, Return_expose m) \<in> set tr"
    with a have "marker_ok (snd (t, Return_expose m))" by blast
    then show ?thesis by simp
  qed
qed

text \<open>
  C1. Whatever the modem-control bits are when the device has been opened: the first
  statement of \<open>main\<close> releases the line, and it is released when the loop begins; a
  call of \<open>expose\<close> under method 1 or 2 that returns leaves it released, whether the
  call was interrupted or not; every turn of the loop that begins with the line released
  ends with it released, and the line was released when \<open>expose\<close> was called and when
  it returned; and whenever \<open>main\<close> ends, by completion, by \<open>FATAL\<close> or by SIGINT,
  the process has left with the line released, and it was released at every call and
  return of \<open>expose\<close> of the run.
\<close>

theorem line_released:
  assumes "status s = Running" and "markers_ok (trace s)"
  shows "at_rest (shutter_release c s)
    \<and> at_rest (start c s)
    \<and> (\<forall>s1 s2. guarded s1 \<and> (mlu_method c = 1 \<or> mlu_method c = 2)
                 \<and> expose c msec s1 = Some s2 \<longrightarrow> at_rest s2)
    \<and> (\<forall>i s1 s2. at_rest s1 \<and> frame c i s1 = Some s2 \<longrightarrow> at_rest s2)
    \<and> (\<forall>s'. main c s = Some s' \<longrightarrow> at_rest s' \<and> status s' \<noteq> Running)
    \<and> (\<forall>s' t m. main c s = Some s'
           \<and> ((t, Call_expose m) \<in> set (trace s') \<or> (t, Return_expose m) \<in> set (trace s'))
         \<longrightarrow> m AND TIOCM_RTS = 0)"
proof -
  have g: "guarded s" using assms(1,2) by (simp add: guarded_def)
  have 1: "at_rest (shutter_release c s)" using g by (rule release_at_rest)
  have 0: "at_rest (start c s)" using assms by (rule at_rest_start)
  have 2: "at_rest s2"
    if "guarded s1 \<and> (mlu_method c = 1 \<or> mlu_method c = 2) \<and> expose c msec s1 = Some s2"
    for s1 s2
  proof (rule expose_at_rest [of c msec s1])
    show "expose c msec s1 = Some s2" using that by simp
    show "guarded s1 \<and> (mlu_method c = 1 \<or> mlu_method c = 2) \<or> at_rest s1" using that by simp
  qed
  have 3: "at_rest s2" if "at_rest s1 \<and> frame c i s1 = Some s2" for i s1 s2
  proof (rule at_rest_frame [of s1 c i])
    show "at_rest s1" using that by simp
    show "frame c i s1 = Some s2" using that by simp
  qed
  have 4: "at_rest s' \<and> status s' \<noteq> Running" if "main c s = Some s'" for s'
  proof -
    have "main c s = (case frames c 1 (start c s) of None \<Rightarrow> None | Some s1 \<Rightarrow> Some (finish c s1))"
      by (simp add: main_def)
    with that obtain s1 where f: "frames c 1 (start c s) = Some s1" and e: "s' = finish c s1"
      by (cases "frames c 1 (start c s)") simp_all
    from at_rest_frames [OF f] 0 have "at_rest s1" by simp
    then show ?thesis unfolding e by (rule at_rest_finish)
  qed
  have 5: "m AND TIOCM_RTS = 0"
    if "main c s = Some s'
        \<and> ((t, Call_expose m) \<in> set (trace s') \<or> (t, Return_expose m) \<in> set (trace s'))"
    for s' t m
  proof (rule markers_ok_member [of "trace s'" t m])
    from that 4 have "at_rest s'" by simp
    then show "markers_ok (trace s')" by (simp add: at_rest_def)
    show "(t, Call_expose m) \<in> set (trace s') \<or> (t, Return_expose m) \<in> set (trace s')"
      using that by simp
  qed
  show ?thesis
  proof (intro conjI allI impI)
    show "at_rest (shutter_release c s)" by (rule 1)
  next
    show "at_rest (start c s)" by (rule 0)
  next
    fix s1 s2
    assume "guarded s1 \<and> (mlu_method c = 1 \<or> mlu_method c = 2) \<and> expose c msec s1 = Some s2"
    then show "at_rest s2" by (rule 2)
  next
    fix i s1 s2 assume "at_rest s1 \<and> frame c i s1 = Some s2"
    then show "at_rest s2" by (rule 3)
  next
    fix s' assume "main c s = Some s'"
    then show "at_rest s'" using 4 by simp
  next
    fix s' assume "main c s = Some s'"
    then show "status s' \<noteq> Running" using 4 by simp
  next
    fix s' t m
    assume "main c s = Some s'
        \<and> ((t, Call_expose m) \<in> set (trace s') \<or> (t, Return_expose m) \<in> set (trace s'))"
    then show "m AND TIOCM_RTS = 0" by (rule 5)
  qed
qed

theorem line_released_witness:
  "status boot = Running \<and> markers_ok (trace boot)
   \<and> at_rest (shutter_release three_dithered boot)
   \<and> (\<exists>s'. main three_dithered boot = Some s' \<and> at_rest s' \<and> status s' \<noteq> Running)"
proof -
  have h: "status boot = Running" "markers_ok (trace boot)"
    by (simp_all add: boot_def)
  have "answering boot" "connecting boot" "phd_dither_size three_dithered \<noteq> 0"
    "phd_cmd_at (phd_dither_size three_dithered) = Some 4"
    "quiet three_dithered \<or> unat (exp_time three_dithered) < 4294967000"
    "unat (exp_count three_dithered) < 4294967295"
    by (simp_all add: answering_def connecting_def boot_def three_dithered_def defaults_def
        phd_cmd_at_def phd_cmds_def)
  from main_calm [OF calm_boot this]
  obtain s' where m: "main three_dithered boot = Some s'" by blast
  note th = line_released [OF h, of three_dithered 1000]
  from th have 1: "at_rest (shutter_release three_dithered boot)" by (rule conjunct1)
  from th have "\<forall>s'. main three_dithered boot = Some s' \<longrightarrow> at_rest s' \<and> status s' \<noteq> Running"
    by (elim conjE)
  with m have "at_rest s' \<and> status s' \<noteq> Running" by (elim allE impE) simp_all
  with m 1 h show ?thesis by (intro conjI exI [of _ s']) simp_all
qed

end
